theory Spec2Isabelle
  imports Complex_Main "HOL-Library.Word"
begin

section \<open>Errors and Python values\<close>

text \<open>
  The exceptions the two modules can raise, each carrying its message. The explicit
  \<^verbatim>\<open>raise\<close> statements of the source keep their message; exceptions raised inside
  the tensor library carry the library's message (shortened, without the shapes).
\<close>

datatype error =
    ValueError string
  | RuntimeError string
  | IndexError string
  | ZeroDivisionError string

text \<open>
  An activation function is an object of some class. \<^verbatim>\<open>a.__class__\<close> is the class,
  \<^verbatim>\<open>a.__class__.__name__\<close> its name; two classes of different modules may carry the
  same name. \<open>act_fn\<close> is what calling the object computes on one number.
\<close>

record py_class =
  class_module :: string
  class_name :: string

record activation =
  act_class :: py_class
  act_fn :: "real \<Rightarrow> real"

section \<open>Model-id assignment: \<^verbatim>\<open>build_model_ids\<close>\<close>

text \<open>
  \<^verbatim>\<open>torch.arange(start, end, step)\<close> on integers: the values \<open>start, start + step, \<dots>\<close>
  before \<open>end\<close>; it raises when the step is zero or points away from \<open>end\<close>.
\<close>

definition arange :: "int \<Rightarrow> int \<Rightarrow> int \<Rightarrow> error + int list" where
  "arange start end step =
     (if step = 0 then Inl (RuntimeError ''step must be nonzero'')
      else if (0 < step \<and> end < start) \<or> (step < 0 \<and> start < end)
      then Inl (RuntimeError ''upper bound and larger bound inconsistent with step sign'')
      else Inr (map (\<lambda>k. start + int k * step) [0..<nat (- ((start - end) div step))]))"

text \<open>
  The inner \<^verbatim>\<open>for structure in neurons_structure\<close> loop: the state is the list built so
  far and the counter \<open>i\<close>. \<^verbatim>\<open>[i] * structure\<close> is the empty list for a negative
  \<open>structure\<close>.
\<close>

fun for_structure :: "int list \<Rightarrow> int list \<times> int \<Rightarrow> int list \<times> int" where
  "for_structure [] (h, i) = (h, i)"
| "for_structure (structure # rest) (h, i) =
     for_structure rest (h @ replicate (nat structure) i, i + 1)"

text \<open>
  The outer \<^verbatim>\<open>while i < num_parallel_mlps\<close> loop. Nothing in the loop itself bounds the
  number of rounds (an empty \<open>neurons_structure\<close> never advances \<open>i\<close>), so not returning
  is the value \<open>None\<close>.
\<close>

partial_function (option) while_models ::
  "int list \<Rightarrow> int \<Rightarrow> int list \<times> int \<Rightarrow> (int list \<times> int) option" where
  "while_models neurons_structure num_parallel_mlps s =
     (if snd s < num_parallel_mlps
      then while_models neurons_structure num_parallel_mlps (for_structure neurons_structure s)
      else Some s)"

declare while_models.simps [code]

definition msg_no_activation :: string where
  "msg_no_activation = ''At least one activation function must be passed. Try `nn.Identity()` if you want no activation.''"

definition msg_not_unique :: string where
  "msg_not_unique = ''activation_functions must have only unique values.''"

text \<open>
  \<^verbatim>\<open>build_model_ids\<close>. \<^verbatim>\<open>len(set(names)) != len(names)\<close> is \<open>\<not> distinct names\<close>;
  \<^verbatim>\<open>[i[0] for i in groupby(xs)]\<close> keeps one element of every run of equal neighbours,
  which is \<open>remdups_adj\<close>; \<^verbatim>\<open>xs[:n] * r\<close> is \<open>r\<close> copies of the first \<open>n\<close> elements.
  The result is \<open>None\<close> when the loop does not return.
\<close>

definition build_model_ids ::
  "int \<Rightarrow> activation list \<Rightarrow> int \<Rightarrow> int \<Rightarrow> int
     \<Rightarrow> (error + int list \<times> int list \<times> int list) option" where
  "build_model_ids repetitions activation_functions min_neurons max_neurons step =
     (if length activation_functions = 0 then Some (Inl (ValueError msg_no_activation))
      else
        let activation_names = map (\<lambda>a. class_name (act_class a)) activation_functions in
        if card (set activation_names) \<noteq> length activation_names
        then Some (Inl (ValueError msg_not_unique))
        else
          let num_activations = int (length activation_functions) in
          (case arange min_neurons (max_neurons + 1) step of
            Inl e \<Rightarrow> Some (Inl e)
          | Inr neurons_structure \<Rightarrow>
              let num_different_neurons_structures = int (length neurons_structure);
                  num_parallel_mlps =
                    num_different_neurons_structures * num_activations * repetitions
              in (case while_models neurons_structure num_parallel_mlps ([], 0) of
                   None \<Rightarrow> None
                 | Some (hidden_neuron__model_id, i) \<Rightarrow>
                     (let output__model_id = remdups_adj hidden_neuron__model_id;
                          output__architecture_id =
                            concat (replicate (nat repetitions)
                              (take (nat (num_activations * num_different_neurons_structures))
                                 output__model_id))
                      in Some (Inr (hidden_neuron__model_id, output__model_id,
                                    output__architecture_id))))))"

text \<open>
  Notation for stating layouts: the runs of the model ids \<open>a, \<dots>, b - 1\<close>, model \<open>m\<close>
  repeated \<open>ns ! (m mod length ns)\<close> times.
\<close>

definition runs :: "int list \<Rightarrow> nat \<Rightarrow> nat \<Rightarrow> int list" where
  "runs ns a b = concat (map (\<lambda>m. replicate (nat (ns ! (m mod length ns))) (int m)) [a..<b])"

text \<open>
  Activation objects of the kinds the tests use, and a user-defined class that is also
  called \<^verbatim>\<open>ReLU\<close> but lives in another module.
\<close>

definition torch_class :: "string \<Rightarrow> py_class" where
  "torch_class name = \<lparr>class_module = ''torch.nn.modules.activation'', class_name = name\<rparr>"

definition ReLU :: activation where
  "ReLU = \<lparr>act_class = torch_class ''ReLU'', act_fn = (\<lambda>x. max 0 x)\<rparr>"

definition LeakyReLU :: activation where
  "LeakyReLU = \<lparr>act_class = torch_class ''LeakyReLU'',
                 act_fn = (\<lambda>x. max 0 x + (1 / 100) * min 0 x)\<rparr>"

definition Sigmoid :: activation where
  "Sigmoid = \<lparr>act_class = torch_class ''Sigmoid'', act_fn = (\<lambda>x. 1 / (1 + exp (- x)))\<rparr>"

definition Identity :: activation where
  "Identity = \<lparr>act_class = torch_class ''Identity'', act_fn = (\<lambda>x. x)\<rparr>"

definition custom_ReLU :: activation where
  "custom_ReLU = \<lparr>act_class = \<lparr>class_module = ''my_activations'', class_name = ''ReLU''\<rparr>,
                   act_fn = (\<lambda>x. max 0 x)\<rparr>"

section \<open>The parallel engine: \<^verbatim>\<open>ParallelMLPs\<close>\<close>

subsection \<open>State\<close>

text \<open>
  The fields \<^verbatim>\<open>__init__\<close> sets, with the source's names. The parameters of the two
  layers are real matrices, rows first: \<open>hidden_layer_weight\<close> is
  \<^verbatim>\<open>hidden_layer.weight\<close> of shape \<open>[total_hidden_neurons, in_features]\<close>,
  \<open>hidden_layer_bias\<close> is \<^verbatim>\<open>hidden_layer.bias\<close>, \<open>weight\<close> has shape
  \<open>[out_features, total_hidden_neurons]\<close> and \<open>bias\<close> shape
  \<open>[num_unique_models, out_features]\<close>. Numbers are exact reals: the rounding of
  floating-point arithmetic is not modelled. The engine is the one built with
  \<^verbatim>\<open>bias=True\<close> (the default) and with a logger.
\<close>

record ParallelMLPs =
  in_features :: nat
  out_features :: nat
  activations :: "activation list"
  hidden_neuron__model_id :: "nat list"
  output__model_id :: "int list"
  output__architecture_id :: "int list"
  total_hidden_neurons :: nat
  unique_model_ids :: "nat list"
  model_id__num_hidden_neurons :: "nat list"
  model_id__start_idx :: "nat list"
  model_id__end_idx :: "nat list"
  num_unique_models :: nat
  num_activations :: nat
  activations_split :: nat
  hidden_layer_weight :: "real list list"
  hidden_layer_bias :: "real list"
  weight :: "real list list"
  bias :: "real list list"

text \<open>
  Python and tensor indexing with an integer: a negative index counts from the end, an
  index outside \<open>[-n, n)\<close> raises \<^verbatim>\<open>IndexError\<close>.
\<close>

definition py_index :: "'a list \<Rightarrow> int \<Rightarrow> error + 'a" where
  "py_index xs i =
     (if - int (length xs) \<le> i \<and> i < int (length xs)
      then Inr (xs ! nat (if i < 0 then i + int (length xs) else i))
      else Inl (IndexError ''index out of range''))"

subsection \<open>\<^verbatim>\<open>reset_parameters\<close>\<close>

text \<open>
  The random numbers one round of the loop consumes: for every entry that is re-drawn, a
  sample of the uniform distribution on \<open>[0, 1)\<close>. \<^verbatim>\<open>kaiming_uniform_(w, a=sqrt(5))\<close>
  draws uniformly from \<open>(-b, b)\<close> with \<open>b = sqrt(2 / (1 + 5)) * sqrt(3 / fan_in)\<close>, which
  is \<open>1 / sqrt(fan_in)\<close>, the bound also used for the bias; \<open>fan_in\<close> is the number of
  columns of \<open>w\<close>.
\<close>

record draws =
  draw_hidden_w :: "nat \<Rightarrow> nat \<Rightarrow> real"
  draw_hidden_b :: "nat \<Rightarrow> real"
  draw_out_w :: "nat \<Rightarrow> nat \<Rightarrow> real"
  draw_out_b :: "nat \<Rightarrow> real"

definition uniform :: "real \<Rightarrow> real \<Rightarrow> real" where
  "uniform bound u = - bound + (bound - (- bound)) * u"

definition bound_of :: "nat \<Rightarrow> error + real" where
  "bound_of fan_in =
     (if fan_in = 0 then Inl (ZeroDivisionError ''float division by zero'')
      else Inr (1 / sqrt (real fan_in)))"

text \<open>
  One round of the loop over \<^verbatim>\<open>layer_ids\<close>. The four slices are views taken first
  (indexing \<^verbatim>\<open>model_id__start_idx\<close>, \<^verbatim>\<open>model_id__end_idx\<close> and \<^verbatim>\<open>self.bias\<close> may raise);
  then the hidden pair and the output pair are initialised in place. A slice
  \<^verbatim>\<open>[start:end]\<close> covers the positions \<open>start \<le> i < end\<close>. When a round raises, it has
  written nothing: a \<open>fan_in\<close> of zero means that the slices written before are empty.
\<close>

definition in_slice :: "nat \<Rightarrow> nat \<Rightarrow> nat \<Rightarrow> bool" where
  "in_slice start end i = (start \<le> i \<and> i < end)"

definition reset_one :: "ParallelMLPs \<Rightarrow> int \<Rightarrow> draws \<Rightarrow> error + ParallelMLPs" where
  "reset_one self layer_id d =
     (case py_index (model_id__start_idx self) layer_id of Inl e \<Rightarrow> Inl e | Inr start \<Rightarrow>
      case py_index (model_id__end_idx self) layer_id of Inl e \<Rightarrow> Inl e | Inr end \<Rightarrow>
      case py_index [0..<length (bias self)] layer_id of Inl e \<Rightarrow> Inl e | Inr out_row \<Rightarrow>
      case bound_of (in_features self) of Inl e \<Rightarrow> Inl e | Inr hidden_bound \<Rightarrow>
      case bound_of (length (filter (in_slice start end) [0..<total_hidden_neurons self])) of
        Inl e \<Rightarrow> Inl e
      | Inr out_bound \<Rightarrow>
          Inr (self\<lparr>
            hidden_layer_weight :=
              map (\<lambda>i. if in_slice start end i
                        then map (\<lambda>j. uniform hidden_bound (draw_hidden_w d i j))
                               [0..<length (hidden_layer_weight self ! i)]
                        else hidden_layer_weight self ! i)
                [0..<length (hidden_layer_weight self)],
            hidden_layer_bias :=
              map (\<lambda>i. if in_slice start end i
                        then uniform hidden_bound (draw_hidden_b d i)
                        else hidden_layer_bias self ! i)
                [0..<length (hidden_layer_bias self)],
            weight :=
              map (\<lambda>k. map (\<lambda>i. if in_slice start end i
                                   then uniform out_bound (draw_out_w d k i)
                                   else weight self ! k ! i)
                           [0..<length (weight self ! k)])
                [0..<length (weight self)],
            bias :=
              map (\<lambda>m. if m = out_row
                        then map (\<lambda>k. uniform out_bound (draw_out_b d k))
                               [0..<length (bias self ! m)]
                        else bias self ! m)
                [0..<length (bias self)]\<rparr>))"

text \<open>
  The loop. The parameters are changed in place, so the engine after the call is also
  there when a round raised: the result is the engine and the exception, if any. The
  \<open>k\<close>-th round uses the draws \<open>rng k\<close>.
\<close>

fun reset_loop ::
  "ParallelMLPs \<Rightarrow> int list \<Rightarrow> nat \<Rightarrow> (nat \<Rightarrow> draws) \<Rightarrow> ParallelMLPs \<times> error option" where
  "reset_loop self [] k rng = (self, None)"
| "reset_loop self (layer_id # rest) k rng =
     (case reset_one self layer_id (rng k) of
        Inl e \<Rightarrow> (self, Some e)
      | Inr self' \<Rightarrow> reset_loop self' rest (Suc k) rng)"

definition reset_parameters ::
  "ParallelMLPs \<Rightarrow> int list option \<Rightarrow> (nat \<Rightarrow> draws) \<Rightarrow> ParallelMLPs \<times> error option" where
  "reset_parameters self layer_ids rng =
     reset_loop self
       (case layer_ids of None \<Rightarrow> map int (unique_model_ids self) | Some ids \<Rightarrow> ids) 0 rng"

subsection \<open>\<^verbatim>\<open>__init__\<close>\<close>

text \<open>
  \<^verbatim>\<open>np.bincount\<close> raises on a negative id and counts the ids \<open>0, \<dots>, max\<close>; the start
  offsets are \<open>0\<close> followed by the running sums without the last one, the end offsets
  add the counts. \<open>allocate\<close> is the engine as the constructor has set it up before
  its last step, with arbitrary numbers (\<open>memory\<close>) in the freshly allocated parameter
  tensors; the constructor ends by calling \<^verbatim>\<open>reset_parameters()\<close> and fails when that
  call raises.
\<close>

definition bincount :: "nat list \<Rightarrow> nat list" where
  "bincount ids = (if ids = [] then [] else map (count_list ids) [0..<Suc (Max (set ids))])"

definition cumsum :: "nat list \<Rightarrow> nat list" where
  "cumsum xs = map (\<lambda>k. sum_list (take (Suc k) xs)) [0..<length xs]"

record memory =
  mem_hidden_w :: "nat \<Rightarrow> nat \<Rightarrow> real"
  mem_hidden_b :: "nat \<Rightarrow> real"
  mem_weight :: "nat \<Rightarrow> nat \<Rightarrow> real"
  mem_bias :: "nat \<Rightarrow> nat \<Rightarrow> real"

definition allocate ::
  "nat \<Rightarrow> nat \<Rightarrow> nat list \<Rightarrow> int list \<Rightarrow> int list \<Rightarrow> activation list \<Rightarrow> memory
     \<Rightarrow> ParallelMLPs" where
  "allocate in_features' out_features' ids output__model_id' output__architecture_id'
       activations' mem =
     (let total = length ids;
          unique = sort (remdups ids);
          counts = bincount ids;
          starts = 0 # butlast (cumsum counts);
          M = length unique
      in \<lparr>in_features = in_features', out_features = out_features',
          activations = activations',
          hidden_neuron__model_id = ids,
          output__model_id = output__model_id',
          output__architecture_id = output__architecture_id',
          total_hidden_neurons = total,
          unique_model_ids = unique,
          model_id__num_hidden_neurons = counts,
          model_id__start_idx = starts,
          model_id__end_idx = map2 (+) starts counts,
          num_unique_models = M,
          num_activations = length activations',
          activations_split = total div length activations',
          hidden_layer_weight =
            map (\<lambda>i. map (mem_hidden_w mem i) [0..<in_features']) [0..<total],
          hidden_layer_bias = map (mem_hidden_b mem) [0..<total],
          weight = map (\<lambda>k. map (mem_weight mem k) [0..<total]) [0..<out_features'],
          bias = map (\<lambda>m. map (mem_bias mem m) [0..<out_features']) [0..<M]\<rparr>)"

definition ParallelMLPs_init ::
  "nat \<Rightarrow> nat \<Rightarrow> int list \<Rightarrow> int list \<Rightarrow> int list \<Rightarrow> activation list \<Rightarrow> memory
     \<Rightarrow> (nat \<Rightarrow> draws) \<Rightarrow> error + ParallelMLPs" where
  "ParallelMLPs_init in_features' out_features' hidden_neuron__model_id' output__model_id'
       output__architecture_id' activations' mem rng =
     (if \<exists>i \<in> set hidden_neuron__model_id'. i < 0
      then Inl (ValueError ''bincount: negative values in input'')
      else if length activations' = 0
      then Inl (ZeroDivisionError ''integer division or modulo by zero'')
      else
        (case reset_parameters
                (allocate in_features' out_features' (map nat hidden_neuron__model_id')
                   output__model_id' output__architecture_id' activations' mem)
                None rng of
           (self, None) \<Rightarrow> Inr self
         | (self, Some e) \<Rightarrow> Inl e))"

subsection \<open>\<^verbatim>\<open>forward\<close>\<close>

text \<open>
  \<^verbatim>\<open>x.split(split_size, dim=1)\<close> of the tensor library, on the size of the axis: chunks of
  \<open>split_size\<close> columns, the last one holding what is left; at least one chunk; a
  \<open>split_size\<close> of 0 is accepted only for an axis of size 0.
\<close>

definition split_sizes :: "nat \<Rightarrow> nat \<Rightarrow> error + nat list" where
  "split_sizes dim_size split_size =
     (if split_size = 0
      then (if dim_size = 0 then Inr [0]
            else Inl (RuntimeError ''split_size can only be 0 if dimension size is 0''))
      else
        let num_splits = max ((dim_size + split_size - 1) div split_size) 1;
            last_split_size = split_size - (split_size * num_splits - dim_size)
        in Inr (replicate (num_splits - 1) split_size @ [last_split_size]))"

fun split_row :: "nat list \<Rightarrow> 'a list \<Rightarrow> 'a list list" where
  "split_row [] xs = []"
| "split_row (s # ss) xs = take s xs # split_row ss (drop s xs)"

definition msg_sub_tensors :: string where
  "msg_sub_tensors = ''sub_tensors with different number of parameters per activation''"

text \<open>
  \<^verbatim>\<open>apply_activations\<close> on a tensor of shape \<open>[batch, n]\<close>, given as \<open>n\<close> and its rows.
  \<^verbatim>\<open>zip\<close> stops at the shorter of the activations and the chunks; every zipped chunk is
  compared with the size of the first chunk; \<^verbatim>\<open>torch.cat\<close> raises on an empty list.
  The result is the size of the concatenated axis and the rows.
\<close>

definition apply_activations ::
  "ParallelMLPs \<Rightarrow> nat \<Rightarrow> real list list \<Rightarrow> error + nat \<times> real list list" where
  "apply_activations self n x =
     (case split_sizes n (activations_split self) of
        Inl e \<Rightarrow> Inl e
      | Inr sizes \<Rightarrow>
          let sub_tensor_out_features = hd sizes;
              zipped = zip (activations self) sizes
          in if \<exists>(act, s) \<in> set zipped. s \<noteq> sub_tensor_out_features
             then Inl (RuntimeError msg_sub_tensors)
             else if zipped = []
             then Inl (RuntimeError ''torch.cat(): expected a non-empty list of Tensors'')
             else Inr (sum_list (map snd zipped),
                       map (\<lambda>row. concat (map2 (\<lambda>act chunk. map (act_fn act) chunk)
                                             (activations self) (split_row sizes row))) x))"

definition dot :: "real list \<Rightarrow> real list \<Rightarrow> real" where
  "dot xs ws = sum_list (map2 (*) xs ws)"

text \<open>
  \<^verbatim>\<open>nn.Linear\<close>: \<open>y = x W\<^sup>T + b\<close> for every row \<open>x\<close> of the batch; the rows must have as
  many entries as \<open>W\<close> has columns.
\<close>

definition linear ::
  "nat \<Rightarrow> real list list \<Rightarrow> real list \<Rightarrow> real list list \<Rightarrow> error + real list list" where
  "linear in_size W b x =
     (if \<exists>row \<in> set x. length row \<noteq> in_size
      then Inl (RuntimeError ''mat1 and mat2 shapes cannot be multiplied'')
      else Inr (map (\<lambda>row. map2 (\<lambda>w b. dot row w + b) W b) x))"


subsection \<open>\<^verbatim>\<open>extract_mlp\<close>\<close>

text \<open>
  The standalone network \<^verbatim>\<open>nn.Sequential(hidden_layer, activation, out_layer)\<close> and what
  calling it computes.
\<close>

record mlp =
  mlp_hidden_weight :: "real list list"
  mlp_hidden_bias :: "real list"
  mlp_activation :: activation
  mlp_out_weight :: "real list list"
  mlp_out_bias :: "real list"

definition mlp_forward :: "nat \<Rightarrow> mlp \<Rightarrow> real list list \<Rightarrow> error + real list list" where
  "mlp_forward in_size net x =
     (case linear in_size (mlp_hidden_weight net) (mlp_hidden_bias net) x of
        Inl e \<Rightarrow> Inl e
      | Inr hidden \<Rightarrow>
          linear (length (mlp_hidden_weight net)) (mlp_out_weight net) (mlp_out_bias net)
            (map (map (act_fn (mlp_activation net))) hidden))"

text \<open>
  \<^verbatim>\<open>torch.nonzero(self.hidden_neuron__model_id == model_id)[0] // self.activations_split\<close>:
  the first hidden neuron of the model, divided by the segment size; taking the first of
  no neurons raises, and so does the division of an integer tensor by zero.
\<close>

definition activation_index :: "ParallelMLPs \<Rightarrow> int \<Rightarrow> error + nat" where
  "activation_index self model_id =
     (case filter (\<lambda>j. int (hidden_neuron__model_id self ! j) = model_id)
             [0..<total_hidden_neurons self] of
        [] \<Rightarrow> Inl (IndexError ''index 0 is out of bounds for dimension 0 with size 0'')
      | first # others \<Rightarrow>
          if activations_split self = 0 then Inl (RuntimeError ''ZeroDivisionError'')
          else Inr (first div activations_split self))"

definition extract_mlp :: "ParallelMLPs \<Rightarrow> int \<Rightarrow> error + mlp" where
  "extract_mlp self model_id =
     (if model_id \<ge> int (num_unique_models self)
      then Inl (ValueError ''model_id > num_uniqe_models'')
      else
        let model_neurons = filter (\<lambda>j. int (hidden_neuron__model_id self ! j) = model_id)
                              [0..<total_hidden_neurons self];
            hidden_weight = map (\<lambda>j. hidden_layer_weight self ! j) model_neurons;
            hidden_bias = map (\<lambda>j. hidden_layer_bias self ! j) model_neurons;
            out_weight = map (\<lambda>row. map (\<lambda>j. row ! j) model_neurons) (weight self)
        in case py_index (bias self) model_id of Inl e \<Rightarrow> Inl e | Inr out_bias \<Rightarrow>
           case activation_index self model_id of Inl e \<Rightarrow> Inl e | Inr idx \<Rightarrow>
           case py_index (activations self) (int idx) of Inl e \<Rightarrow> Inl e | Inr activation \<Rightarrow>
             Inr \<lparr>mlp_hidden_weight = hidden_weight, mlp_hidden_bias = hidden_bias,
                  mlp_activation = activation,
                  mlp_out_weight = out_weight, mlp_out_bias = out_bias\<rparr>)"

subsection \<open>Engines in use\<close>

text \<open>
  After construction the parameters change (gradient steps from outside, or
  \<^verbatim>\<open>reset_parameters\<close>), the other fields never: \<open>trained e\<^sub>0 e\<close> says that \<open>e\<close> is the
  constructed engine \<open>e\<^sub>0\<close> with parameter tensors of the same shapes.
\<close>

definition same_shape :: "'a list list \<Rightarrow> 'b list list \<Rightarrow> bool" where
  "same_shape a b = (map length a = map length b)"

definition trained :: "ParallelMLPs \<Rightarrow> ParallelMLPs \<Rightarrow> bool" where
  "trained e0 e =
     (e = e0\<lparr>hidden_layer_weight := hidden_layer_weight e,
             hidden_layer_bias := hidden_layer_bias e,
             weight := weight e, bias := bias e\<rparr> \<and>
      same_shape (hidden_layer_weight e) (hidden_layer_weight e0) \<and>
      length (hidden_layer_bias e) = length (hidden_layer_bias e0) \<and>
      same_shape (weight e) (weight e0) \<and>
      same_shape (bias e) (bias e0))"

section \<open>Multi-model confusion matrix: \<^verbatim>\<open>MultiConfusionMatrix\<close>\<close>

subsection \<open>Tensors, devices and results\<close>

text \<open>
  A device is its name (\<^verbatim>\<open>"cpu"\<close>, \<^verbatim>\<open>"cuda:0"\<close>). The count tensor has
  \<^verbatim>\<open>dtype=torch.int\<close>, a 32-bit integer whose addition wraps; the sums that
  \<^verbatim>\<open>calculate_metrics\<close> takes of it are 64-bit integers.
\<close>

type_synonym device = string
type_synonym int32 = "32 word"
type_synonym int64 = "64 word"

text \<open>Sequencing of fallible steps: the first exception ends the computation.\<close>

definition and_then :: "error + 'a \<Rightarrow> ('a \<Rightarrow> error + 'b) \<Rightarrow> error + 'b" where
  "and_then r f = (case r of Inl e \<Rightarrow> Inl e | Inr a \<Rightarrow> f a)"

fun sequence :: "(error + 'a) list \<Rightarrow> error + 'a list" where
  "sequence [] = Inr []"
| "sequence (r # rs) =
     (case r of
        Inl e \<Rightarrow> Inl e
      | Inr a \<Rightarrow> (case sequence rs of Inl e \<Rightarrow> Inl e | Inr as \<Rightarrow> Inr (a # as)))"

text \<open>
  \<^verbatim>\<open>targets\<close> is a tensor of shape \<open>[batch]\<close>. \<^verbatim>\<open>predictions\<close> is either a tensor of
  class indices of shape \<open>[batch, n]\<close> or a tensor of class scores of shape
  \<open>[batch, n, c]\<close>; the sizes after the batch size are kept with the rows, because a
  tensor has them also when the batch is empty.
\<close>

record targets_tensor =
  t_device :: device
  t_values :: "int list"

datatype prediction_values =
    ClassIndices nat "int list list"
  | ClassScores nat nat "real list list list"

record predictions_tensor =
  p_device :: device
  p_values :: prediction_values

record MultiConfusionMatrix =
  n_models :: nat
  n_classes :: nat
  cm :: "int32 list list list"
  device :: device

definition MultiConfusionMatrix_init :: "nat \<Rightarrow> nat \<Rightarrow> device \<Rightarrow> MultiConfusionMatrix" where
  "MultiConfusionMatrix_init n_models' n_classes' device' =
     \<lparr>n_models = n_models', n_classes = n_classes',
      cm = replicate n_models' (replicate n_classes' (replicate n_classes' 0)),
      device = device'\<rparr>"

subsection \<open>\<^verbatim>\<open>update\<close>\<close>

text \<open>The exceptions of this part.\<close>

definition shape_error :: error where
  "shape_error =
     IndexError ''shape mismatch: indexing tensors could not be broadcast together''"

definition device_error :: error where
  "device_error =
     RuntimeError ''indices are not on a device accepted for the indexed tensor''"

definition argmax_error :: error where
  "argmax_error = IndexError ''argmax(): Expected reduction dim 2 to have non-zero size.''"


text \<open>
  \<^verbatim>\<open>argmax(-1)\<close>: the position of the first largest score of every sample and model;
  it raises when the class axis is empty.
\<close>

fun argmax_from :: "nat \<Rightarrow> nat \<Rightarrow> real \<Rightarrow> real list \<Rightarrow> nat" where
  "argmax_from i best v [] = best"
| "argmax_from i best v (x # xs) =
     (if v < x then argmax_from (Suc i) i x xs else argmax_from (Suc i) best v xs)"

definition argmax :: "real list \<Rightarrow> nat" where
  "argmax xs = (case xs of [] \<Rightarrow> 0 | x # rest \<Rightarrow> argmax_from 1 0 x rest)"

text \<open>
  The first half of \<^verbatim>\<open>update\<close>: the tuple \<^verbatim>\<open>indices\<close> that is handed to
  \<^verbatim>\<open>index_put_\<close>. Predictions with more than two dimensions are reduced by
  \<^verbatim>\<open>argmax\<close>; predictions on another device than the count tensor are moved to its
  device. \<^verbatim>\<open>n_models_arange\<close> was created on the count tensor's device; \<^verbatim>\<open>targets\<close> is
  passed on as it came (\<^verbatim>\<open>targets[:, None]\<close> only adds an axis).
\<close>

record index_tuple =
  models_index :: "device \<times> nat list"
  targets_index :: targets_tensor
  predictions_index :: predictions_tensor

definition update_indices ::
  "MultiConfusionMatrix \<Rightarrow> predictions_tensor \<Rightarrow> targets_tensor \<Rightarrow> error + index_tuple" where
  "update_indices self predictions targets =
     and_then
       (case p_values predictions of
          ClassScores n c rows \<Rightarrow>
            if c = 0
            then Inl argmax_error
            else Inr (predictions\<lparr>p_values :=
                        ClassIndices n (map (map (\<lambda>scores. int (argmax scores))) rows)\<rparr>)
        | ClassIndices n rows \<Rightarrow> Inr predictions)
       (\<lambda>predictions.
          let predictions =
                (if p_device predictions \<noteq> device self
                 then predictions\<lparr>p_device := device self\<rparr> else predictions)
          in Inr \<lparr>models_index = (device self, [0..<n_models self]),
                  targets_index = targets,
                  predictions_index = predictions\<rparr>)"

text \<open>
  \<^verbatim>\<open>index_put_(indices, values=one, accumulate=True)\<close> of the tensor library. The three
  index tensors, of shapes \<open>[N]\<close>, \<open>[B, 1]\<close> and \<open>[B', n]\<close>, are broadcast to one shape
  \<open>[max B B', max N n]\<close>; an axis broadcasts when the two sizes are equal or one of them
  is 1. An index \<open>v\<close> into an axis of size \<open>s\<close> must lie in \<open>[-s, s)\<close>, negative ones
  counting from the end. Every position of the broadcast shape adds 1 to one cell. The
  shapes are checked first, then the devices, and the indices while the cells are
  written.

  Which devices the library accepts for an index tensor that is not on the device of the
  indexed tensor is not part of this repository and differs between versions of the
  library; it is the parameter \<open>cross_device_ok self_device index_device\<close>. An index
  tensor on the device of the indexed tensor is always accepted.
\<close>

definition broadcast_dim :: "nat \<Rightarrow> nat \<Rightarrow> nat option" where
  "broadcast_dim a b =
     (if a = b then Some a else if a = 1 then Some b else if b = 1 then Some a else None)"

definition at_dim :: "nat \<Rightarrow> nat \<Rightarrow> nat" where
  "at_dim dim_size i = (if dim_size = 1 then 0 else i)"

definition wrap_index :: "nat \<Rightarrow> int \<Rightarrow> error + nat" where
  "wrap_index dim_size v =
     (if - int dim_size \<le> v \<and> v < int dim_size
      then Inr (nat (if v < 0 then v + int dim_size else v))
      else Inl (IndexError ''index out of range in self''))"

definition add_one :: "int32 list list list \<Rightarrow> nat \<times> nat \<times> nat \<Rightarrow> int32 list list list" where
  "add_one c pos =
     (case pos of (m, t, p) \<Rightarrow> c[m := (c ! m)[t := (c ! m ! t)[p := c ! m ! t ! p + 1]]])"

definition sample_positions ::
  "nat \<Rightarrow> nat list \<Rightarrow> nat \<Rightarrow> nat \<Rightarrow> int \<Rightarrow> int list \<Rightarrow> (error + nat \<times> nat \<times> nat) list" where
  "sample_positions classes models n width target row =
     map (\<lambda>j.
       and_then (wrap_index classes target) (\<lambda>t.
       and_then (wrap_index classes (row ! at_dim n j)) (\<lambda>p.
       Inr (models ! at_dim (length models) j, t, p))))
       [0..<width]"

definition index_positions ::
  "nat \<Rightarrow> nat list \<Rightarrow> int list \<Rightarrow> nat \<Rightarrow> int list list \<Rightarrow> nat \<Rightarrow> nat
     \<Rightarrow> error + (nat \<times> nat \<times> nat) list" where
  "index_positions classes models tvalues n rows batch width =
     sequence (concat (map (\<lambda>i.
       sample_positions classes models n width
         (tvalues ! at_dim (length tvalues) i) (rows ! at_dim (length rows) i))
       [0..<batch]))"

definition index_put_accumulate ::
  "(device \<Rightarrow> device \<Rightarrow> bool) \<Rightarrow> MultiConfusionMatrix \<Rightarrow> index_tuple
     \<Rightarrow> error + MultiConfusionMatrix" where
  "index_put_accumulate cross_device_ok self indices =
     (case p_values (predictions_index indices) of
        ClassScores n c rows \<Rightarrow>
          Inl (IndexError ''tensors used as indices must be long, int, byte or bool tensors'')
      | ClassIndices n rows \<Rightarrow>
          let models = snd (models_index indices);
              tvalues = t_values (targets_index indices)
          in case (broadcast_dim (length tvalues) (length rows),
                   broadcast_dim (length models) n) of
               (Some batch, Some width) \<Rightarrow>
                 if list_all (\<lambda>d. d = device self \<or> cross_device_ok (device self) d)
                      [fst (models_index indices), t_device (targets_index indices),
                       p_device (predictions_index indices)]
                 then and_then
                        (index_positions (n_classes self) models tvalues n rows batch width)
                        (\<lambda>positions. Inr (self\<lparr>cm := foldl add_one (cm self) positions\<rparr>))
                 else Inl device_error
             | _ \<Rightarrow> Inl shape_error)"

definition update ::
  "(device \<Rightarrow> device \<Rightarrow> bool) \<Rightarrow> MultiConfusionMatrix \<Rightarrow> predictions_tensor \<Rightarrow> targets_tensor
     \<Rightarrow> error + MultiConfusionMatrix" where
  "update cross_device_ok self predictions targets =
     and_then (update_indices self predictions targets)
       (index_put_accumulate cross_device_ok self)"

subsection \<open>\<^verbatim>\<open>calculate_metrics\<close>\<close>

text \<open>
  The floating-point results, without rounding: a real number or one of the three special
  values. Division and square root follow IEEE 754 where the result is special: a
  non-zero number divided by zero is an infinity, zero by zero and anything involving
  \<open>NaN\<close> is \<open>NaN\<close>, the square root of a negative number is \<open>NaN\<close>.
\<close>

datatype fp_value = Finite real | PosInf | NegInf | NaN

fun float_div :: "fp_value \<Rightarrow> fp_value \<Rightarrow> fp_value" where
  "float_div (Finite a) (Finite b) =
     (if b = 0 then (if a = 0 then NaN else if 0 < a then PosInf else NegInf)
      else Finite (a / b))"
| "float_div (Finite a) PosInf = Finite 0"
| "float_div (Finite a) NegInf = Finite 0"
| "float_div PosInf (Finite b) = (if b < 0 then NegInf else PosInf)"
| "float_div NegInf (Finite b) = (if b < 0 then PosInf else NegInf)"
| "float_div x y = NaN"

definition float_of_int64 :: "int64 \<Rightarrow> fp_value" where
  "float_of_int64 w = Finite (real_of_int (sint w))"

definition float_sqrt :: "int64 \<Rightarrow> fp_value" where
  "float_sqrt w = (if sint w < 0 then NaN else Finite (sqrt (real_of_int (sint w))))"

text \<open>\<^verbatim>\<open>sum\<close> of 32-bit integers is taken in 64 bits.\<close>

definition sum64 :: "int32 list \<Rightarrow> int64" where
  "sum64 xs = sum_list (map scast xs)"

record metrics =
  total_samples :: int64
  tp :: "int32 list list"
  fn :: "int64 list list"
  fp :: "int64 list list"
  tn :: "int64 list list"
  overall_acc :: "fp_value list"
  matthews_corrcoef :: "fp_value list"

definition sentinel :: real where
  "sentinel = 1 / 10 ^ 9"

text \<open>
  \<^verbatim>\<open>_matthews_corrcoef\<close>. Its first three statements compute a per-class quotient
  \<^verbatim>\<open>matt\<close> that is overwritten before it is read; they are element-wise operations that
  cannot raise and are left out. \<open>t_sum\<close> are the row sums and \<open>p_sum\<close> the column sums
  of every model's matrix. The quotient is computed for every model first, and then
  replaced by the sentinel where the mask holds.
\<close>

definition row_sums :: "int32 list list \<Rightarrow> int64 list" where
  "row_sums m = map sum64 m"

definition col_sums :: "nat \<Rightarrow> int32 list list \<Rightarrow> int64 list" where
  "col_sums classes m = map (\<lambda>j. sum64 (map (\<lambda>row. row ! j) m)) [0..<classes]"

definition matthews_corrcoef_of ::
  "nat \<Rightarrow> int32 list list list \<Rightarrow> int32 list list \<Rightarrow> int64 \<Rightarrow> fp_value list" where
  "matthews_corrcoef_of classes C tp' total' =
     (let t_sum = map row_sums C;
          p_sum = map (col_sums classes) C;
          n_correct = map sum64 tp';
          cov_ytyp = map2 (\<lambda>n (t, p). n * total' - sum_list (map2 (*) t p))
                       n_correct (zip t_sum p_sum);
          cov_ypyp = map (\<lambda>p. total' ^ 2 - sum_list (map2 (*) p p)) p_sum;
          cov_ytyt = map (\<lambda>t. total' ^ 2 - sum_list (map2 (*) t t)) t_sum;
          matt = map2 (\<lambda>yp (tt, pp). float_div (float_of_int64 yp) (float_sqrt (tt * pp)))
                   cov_ytyp (zip cov_ytyt cov_ypyp);
          invalid_mask = map2 (\<lambda>pp tt. pp * tt = 0) cov_ypyp cov_ytyt
      in map2 (\<lambda>v invalid. if invalid then Finite sentinel else v) matt invalid_mask)"

definition calculate_metrics :: "MultiConfusionMatrix \<Rightarrow> error + metrics" where
  "calculate_metrics self =
     (case cm self of
        [] \<Rightarrow> Inl (IndexError ''index 0 is out of bounds for dimension 0 with size 0'')
      | first # others \<Rightarrow>
          let classes = n_classes self;
              total' = sum64 (concat first);
              tp' = map (\<lambda>m. map (\<lambda>c. m ! c ! c) [0..<classes]) (cm self);
              fn' = map2 (\<lambda>m d. map2 (\<lambda>s x. s - scast x) (row_sums m) d) (cm self) tp';
              fp' = map2 (\<lambda>m d. map2 (\<lambda>s x. s - scast x) (col_sums classes m) d) (cm self) tp';
              tn' = map2 (\<lambda>(n, p) d. map2 (\<lambda>(a, b) x. total' - a - b - scast x) (zip n p) d)
                      (zip fn' fp') tp'
          in Inr \<lparr>total_samples = total', tp = tp', fn = fn', fp = fp', tn = tn',
                  overall_acc =
                    map (\<lambda>d. float_div (float_of_int64 (sum64 d)) (float_of_int64 total')) tp',
                  matthews_corrcoef = matthews_corrcoef_of classes (cm self) tp' total'\<rparr>)"

subsection \<open>Measuring a state\<close>

text \<open>
  The sum of all entries of one model's matrix, each entry read as the signed integer it
  stands for, and the shape \<open>[n_models, n_classes, n_classes]\<close> of the count tensor.
\<close>

definition entry_sum :: "int32 list list \<Rightarrow> int" where
  "entry_sum m = (\<Sum>row\<leftarrow>m. \<Sum>x\<leftarrow>row. sint x)"

definition cm_shape :: "nat \<Rightarrow> nat \<Rightarrow> int32 list list list \<Rightarrow> bool" where
  "cm_shape models classes c =
     (length c = models \<and>
      (\<forall>m<models. length (c ! m) = classes \<and> (\<forall>t<classes. length (c ! m ! t) = classes)))"

definition well_shaped :: "MultiConfusionMatrix \<Rightarrow> bool" where
  "well_shaped self = cm_shape (n_models self) (n_classes self) (cm self)"

text \<open>
  \<open>counted self seen\<close>: the count tensor has its shape, no entry is negative, and every
  model's matrix sums to \<open>seen\<close>. The size of the model axis and the number of rows of a
  predictions tensor, and \<^verbatim>\<open>update\<close> called on one batch after the other.
\<close>

definition counted :: "MultiConfusionMatrix \<Rightarrow> nat \<Rightarrow> bool" where
  "counted self seen =
     (well_shaped self \<and>
      (\<forall>m<n_models self. \<forall>t<n_classes self. \<forall>p<n_classes self. 0 \<le> sint (cm self ! m ! t ! p)) \<and>
      (\<forall>m<n_models self. entry_sum (cm self ! m) = int seen))"

fun models_axis :: "prediction_values \<Rightarrow> nat" where
  "models_axis (ClassIndices n rows) = n"
| "models_axis (ClassScores n c rows) = n"

fun batch_len :: "prediction_values \<Rightarrow> nat" where
  "batch_len (ClassIndices n rows) = length rows"
| "batch_len (ClassScores n c rows) = length rows"

fun update_all ::
  "(device \<Rightarrow> device \<Rightarrow> bool) \<Rightarrow> MultiConfusionMatrix
     \<Rightarrow> (predictions_tensor \<times> targets_tensor) list \<Rightarrow> error + MultiConfusionMatrix" where
  "update_all cross_device_ok self [] = Inr self"
| "update_all cross_device_ok self ((predictions, targets) # rest) =
     and_then (update cross_device_ok self predictions targets)
       (\<lambda>self'. update_all cross_device_ok self' rest)"


section \<open>Properties of the model-id assignment\<close>

subsection \<open>What the two loops build\<close>

text \<open>
  \<open>runs ns a b\<close> abbreviates the layout the loops produce for the model ids \<open>a, \<dots>, b - 1\<close>:
  model \<open>m\<close> contributes one run of \<open>ns ! (m mod length ns)\<close> copies of \<open>m\<close>.
\<close>

lemma for_structure_eq:
  "for_structure ns (h, i) =
     (h @ concat (map (\<lambda>k. replicate (nat (ns ! k)) (i + int k)) [0..<length ns]),
      i + int (length ns))"
proof (induction ns arbitrary: h i)
  case Nil then show ?case by simp
next
  case (Cons s ns)
  have "[0..<length (s # ns)] = 0 # map Suc [0..<length ns]"
    by (simp add: upt_conv_Cons map_Suc_upt del: upt_Suc)
  then show ?case using Cons.IH[of "h @ replicate (nat s) i" "i + 1"]
    by (simp add: comp_def add.assoc del: upt_Suc)
qed

lemma runs_block:
  assumes "0 < length ns"
  shows "concat (map (\<lambda>k. replicate (nat (ns ! k)) (int (length ns * j) + int k)) [0..<length ns])
         = runs ns (length ns * j) (length ns * Suc j)"
proof -
  let ?S = "length ns"
  have upt: "[?S * j..<?S * Suc j] = map (\<lambda>k. ?S * j + k) [0..<?S]"
    using map_add_upt[of "?S * j" ?S] by (simp add: add.commute)
  show ?thesis
    unfolding runs_def upt map_map
    by (rule arg_cong[where f = concat], rule map_cong) simp_all
qed

lemma runs_append:
  assumes "a \<le> b" "b \<le> c"
  shows "runs ns a b @ runs ns b c = runs ns a c"
proof -
  have "[a..<c] = [a..<b] @ [b..<c]"
    using upt_add_eq_append[of a b "c - b"] assms by simp
  then show ?thesis by (simp add: runs_def)
qed

text \<open>The outer loop returns: after \<open>n - j\<close> further rounds the counter reaches the bound.\<close>

lemma while_models_eq:
  assumes "0 < length ns" "j \<le> n"
  shows "while_models ns (int (length ns * n)) (h, int (length ns * j))
         = Some (h @ runs ns (length ns * j) (length ns * n), int (length ns * n))"
  using assms(2)
proof (induction "n - j" arbitrary: j h)
  case 0
  then have "j = n" by simp
  then show ?case by (subst while_models.simps) (simp add: runs_def)
next
  case (Suc d)
  then have lt: "j < n" and d: "d = n - Suc j" and le: "Suc j \<le> n" by simp_all
  have lt': "int (length ns * j) < int (length ns * n)" using lt assms(1) by simp
  have step: "for_structure ns (h, int (length ns * j))
      = (h @ runs ns (length ns * j) (length ns * Suc j), int (length ns * Suc j))"
    using runs_block[OF assms(1), of j] by (simp add: for_structure_eq distrib_left)
  have "while_models ns (int (length ns * n)) (h, int (length ns * j))
     = while_models ns (int (length ns * n))
         (h @ runs ns (length ns * j) (length ns * Suc j), int (length ns * Suc j))"
    by (subst while_models.simps) (use lt' step in simp)
  also have "\<dots> = Some ((h @ runs ns (length ns * j) (length ns * Suc j))
                        @ runs ns (length ns * Suc j) (length ns * n), int (length ns * n))"
    using Suc.hyps(1)[OF d le] .
  also have "(h @ runs ns (length ns * j) (length ns * Suc j))
               @ runs ns (length ns * Suc j) (length ns * n)
     = h @ runs ns (length ns * j) (length ns * n)"
  proof -
    have "length ns * Suc j \<le> length ns * n" using le by (rule mult_le_mono2)
    then show ?thesis
      using runs_append[of "length ns * j" "length ns * Suc j" "length ns * n" ns] by simp
  qed
  finally show ?case .
qed

lemma ceil_div_pos:
  fixes a s :: int
  assumes "0 < s"
  shows "- ((- a - 1) div s) = a div s + 1"
proof -
  have "- a - 1 = s * (- (a div s) - 1) + (s - 1 - a mod s)"
    by (simp add: algebra_simps)
  moreover have "0 \<le> s - 1 - a mod s" "s - 1 - a mod s < s"
    using pos_mod_bound[OF assms, of a] pos_mod_sign[OF assms, of a] by linarith+
  ultimately have "(- a - 1) div s = - (a div s) - 1"
    by (rule int_div_pos_eq)
  then show ?thesis by simp
qed

lemma arange_neurons:
  assumes "mn \<le> mx" "1 \<le> st"
  shows "arange mn (mx + 1) st =
         Inr (map (\<lambda>k. mn + int k * st) [0..<nat ((mx - mn) div st + 1)])"
proof -
  have "- ((mn - (mx + 1)) div st) = (mx - mn) div st + 1"
    using ceil_div_pos[of st "mx - mn"] assms(2) by (simp add: algebra_simps)
  then show ?thesis using assms by (simp add: arange_def)
qed

text \<open>
  Once both checks pass and the neuron-count sequence exists, \<^verbatim>\<open>build_model_ids\<close>
  returns, for any repetition count (none of the loops runs when it is not positive).
\<close>

lemma build_model_ids_Inr:
  assumes "acts \<noteq> []" "distinct (map (\<lambda>a. class_name (act_class a)) acts)"
    and "arange mn (mx + 1) st = Inr ns"
  shows "build_model_ids R acts mn mx st =
     Some (Inr (runs ns 0 (length ns * length acts * nat R),
                remdups_adj (runs ns 0 (length ns * length acts * nat R)),
                concat (replicate (nat R) (take (nat (int (length acts) * int (length ns)))
                   (remdups_adj (runs ns 0 (length ns * length acts * nat R)))))))"
proof -
  let ?M = "int (length ns) * int (length acts) * R"
  have w: "while_models ns ?M ([], 0) =
             Some (runs ns 0 (length ns * length acts * nat R),
                   int (length ns * (length acts * nat R)))"
  proof (cases "0 < length ns \<and> 0 < R")
    case True
    then have M: "?M = int (length ns * (length acts * nat R))" by simp
    show ?thesis
      unfolding M using while_models_eq[of ns 0 "length acts * nat R" "[]"] True
      by (simp add: mult.assoc)
  next
    case False
    have "0 \<le> int (length ns) * int (length acts)" by simp
    have "?M \<le> 0"
    proof (cases "length ns = 0")
      case True then show ?thesis by simp
    next
      case False
      with \<open>\<not> (0 < length ns \<and> 0 < R)\<close> have "R \<le> 0" by simp
      with \<open>0 \<le> int (length ns) * int (length acts)\<close> show ?thesis
        by (rule mult_nonneg_nonpos)
    qed
    then have nM: "\<not> 0 < ?M" by simp
    have z: "length ns * length acts * nat R = 0" "length ns * (length acts * nat R) = 0"
      using False by auto
    show ?thesis unfolding z
      by (subst while_models.simps) (use nM in \<open>simp add: runs_def\<close>)
  qed
  have c: "card (set (map (\<lambda>a. class_name (act_class a)) acts))
             = length (map (\<lambda>a. class_name (act_class a)) acts)"
    using assms(2) by (rule distinct_card)
  show ?thesis
    unfolding build_model_ids_def using assms(1,3) c w
    by (simp add: Let_def)
qed

lemma build_model_ids_empty:
  "build_model_ids R [] mn mx st = Some (Inl (ValueError msg_no_activation))"
  by (simp add: build_model_ids_def)

lemma build_model_ids_duplicate:
  assumes "acts \<noteq> []" "\<not> distinct (map (\<lambda>a. class_name (act_class a)) acts)"
  shows "build_model_ids R acts mn mx st = Some (Inl (ValueError msg_not_unique))"
proof -
  have "card (set (map (\<lambda>a. class_name (act_class a)) acts))
          \<noteq> length (map (\<lambda>a. class_name (act_class a)) acts)"
    using assms(2) card_distinct by blast
  then show ?thesis using assms(1) by (simp add: build_model_ids_def Let_def)
qed

lemma build_model_ids_no_ValueError:
  assumes "acts \<noteq> []" "distinct (map (\<lambda>a. class_name (act_class a)) acts)"
  shows "build_model_ids R acts mn mx st \<noteq> Some (Inl (ValueError msg))"
proof (cases "arange mn (mx + 1) st")
  case (Inl e)
  then have "\<exists>m. e = RuntimeError m" by (auto simp: arange_def split: if_splits)
  moreover have "build_model_ids R acts mn mx st = Some (Inl e)"
    using assms Inl distinct_card[OF assms(2)] by (simp add: build_model_ids_def Let_def)
  ultimately show ?thesis by auto
next
  case (Inr ns)
  show ?thesis unfolding build_model_ids_Inr[OF assms Inr] by simp
qed

subsection \<open>Validation of the activation list\<close>

text \<open>
  Claim C8, as the code has it. \<^verbatim>\<open>build_model_ids\<close> fails with a \<^verbatim>\<open>ValueError\<close> when
  the activation list is empty, and when two activation functions have classes of the
  same \<^emph>\<open>name\<close> (the code compares \<^verbatim>\<open>__class__.__name__\<close>); this holds for every
  repetition count, neuron range and step, also those for which building the arrays
  would fail, so both checks come first. For a non-empty list whose class names are
  pairwise distinct no \<^verbatim>\<open>ValueError\<close> is raised.
\<close>

theorem build_model_ids_validation:
  "(acts = [] \<longrightarrow>
      build_model_ids R acts mn mx st = Some (Inl (ValueError msg_no_activation))) \<and>
   (acts \<noteq> [] \<and> \<not> distinct (map (\<lambda>a. class_name (act_class a)) acts) \<longrightarrow>
      build_model_ids R acts mn mx st = Some (Inl (ValueError msg_not_unique))) \<and>
   (acts \<noteq> [] \<and> distinct (map (\<lambda>a. class_name (act_class a)) acts) \<longrightarrow>
      (\<forall>msg. build_model_ids R acts mn mx st \<noteq> Some (Inl (ValueError msg))))"
  using build_model_ids_empty build_model_ids_duplicate build_model_ids_no_ValueError
  by blast

theorem build_model_ids_validation_witness:
  "build_model_ids 2 [] 1 3 1 = Some (Inl (ValueError msg_no_activation)) \<and>
   build_model_ids 2 [ReLU, Sigmoid, Sigmoid] 1 3 1 = Some (Inl (ValueError msg_not_unique)) \<and>
   build_model_ids 3 [LeakyReLU, Sigmoid] 1 3 1 \<noteq> Some (Inl (ValueError msg_not_unique))"
proof -
  have d: "\<not> distinct (map (\<lambda>a. class_name (act_class a)) [ReLU, Sigmoid, Sigmoid])"
    by simp
  have e: "distinct (map (\<lambda>a. class_name (act_class a)) [LeakyReLU, Sigmoid])"
    by (simp add: LeakyReLU_def Sigmoid_def torch_class_def)
  show ?thesis
    using build_model_ids_validation[of "[]" 2 1 3 1]
      build_model_ids_validation[of "[ReLU, Sigmoid, Sigmoid]" 2 1 3 1]
      build_model_ids_validation[of "[LeakyReLU, Sigmoid]" 3 1 3 1] d e
    by simp
qed

text \<open>
  The claim speaks of kinds compared by class identity. The classes of \<open>ReLU\<close> and
  \<open>custom_ReLU\<close> are different classes, yet the list is rejected, because the two
  classes have the same name.
\<close>

theorem build_model_ids_class_identity_counterexample:
  "[ReLU, custom_ReLU] \<noteq> [] \<and>
   distinct (map act_class [ReLU, custom_ReLU]) \<and>
   build_model_ids 1 [ReLU, custom_ReLU] 1 3 1 = Some (Inl (ValueError msg_not_unique))"
  by (simp add: build_model_ids_def ReLU_def custom_ReLU_def torch_class_def Let_def)

subsection \<open>The partition of the hidden neurons\<close>

lemma count_list_replicate: "count_list (replicate n x) y = (if x = y then n else 0)"
  by (induction n) auto

lemma count_list_runs:
  "count_list (runs ns a b) (int m) = (if a \<le> m \<and> m < b then nat (ns ! (m mod length ns)) else 0)"
proof (induction b)
  case 0 then show ?case by (simp add: runs_def)
next
  case (Suc b)
  show ?case
  proof (cases "a \<le> b")
    case True
    then have "runs ns a (Suc b) = runs ns a b @ replicate (nat (ns ! (b mod length ns))) (int b)"
      by (simp add: runs_def)
    then show ?thesis using Suc True by (auto simp: count_list_replicate)
  next
    case False
    then show ?thesis by (simp add: runs_def)
  qed
qed

lemma set_runs: "set (runs ns a b) \<subseteq> int ` {a..<b}"
  by (auto simp: runs_def)

lemma sorted_runs: "sorted (runs ns a b)"
proof (induction b)
  case 0 then show ?case by (simp add: runs_def)
next
  case (Suc b)
  show ?case
  proof (cases "a \<le> b")
    case True
    then have "runs ns a (Suc b) = runs ns a b @ replicate (nat (ns ! (b mod length ns))) (int b)"
      by (simp add: runs_def)
    moreover have "\<forall>x\<in>set (runs ns a b). x \<le> int b" using set_runs[of ns a b] by auto
    ultimately show ?thesis using Suc by (auto simp: sorted_append)
  next
    case False
    then show ?thesis by (simp add: runs_def)
  qed
qed

lemma length_runs:
  "length (runs ns a b) = (\<Sum>m\<leftarrow>[a..<b]. nat (ns ! (m mod length ns)))"
  by (simp add: runs_def length_concat comp_def)

text \<open>
  Claim C3, for neuron counts that are not negative. With a non-empty list of activations
  with pairwise distinct class names, \<open>0 \<le> min \<le> max\<close> and \<open>step \<ge> 1\<close>, the neuron-count
  sequence has \<open>S = (max - min) div step + 1 \<ge> 1\<close> entries, \<^verbatim>\<open>build_model_ids\<close> returns,
  and with \<open>M = S * K * R\<close> models its \<^verbatim>\<open>hidden_neuron__model_id\<close> is the runs of the model
  ids \<open>0, \<dots>, M - 1\<close> in increasing order, model \<open>m\<close> being repeated
  \<open>neuron_sequence[m mod S]\<close> times: each id occurs exactly that often, in one run, the
  list is sorted, its length is the sum of the \<open>M\<close> widths, and no other id occurs.
  (A repetition count below 1 gives \<open>M = 0\<close> and the empty list.)
\<close>

theorem build_model_ids_partition:
  assumes "acts \<noteq> []" "distinct (map (\<lambda>a. class_name (act_class a)) acts)"
    and "0 \<le> mn" "mn \<le> mx" "1 \<le> st"
  shows "let S = nat ((mx - mn) div st + 1);
             neuron_sequence = map (\<lambda>k. mn + int k * st) [0..<S];
             M = S * length acts * nat R
         in 1 \<le> S \<and>
            (\<exists>hidden_neuron__model_id output__model_id output__architecture_id.
              build_model_ids R acts mn mx st =
                Some (Inr (hidden_neuron__model_id, output__model_id, output__architecture_id)) \<and>
              hidden_neuron__model_id =
                concat (map (\<lambda>m. replicate (nat (neuron_sequence ! (m mod S))) (int m)) [0..<M]) \<and>
              sorted hidden_neuron__model_id \<and>
              int (length hidden_neuron__model_id) = (\<Sum>m\<leftarrow>[0..<M]. neuron_sequence ! (m mod S)) \<and>
              (\<forall>m<M. int (count_list hidden_neuron__model_id (int m)) = neuron_sequence ! (m mod S)) \<and>
              (\<forall>x\<in>set hidden_neuron__model_id. 0 \<le> x \<and> x < int M))"
proof -
  define S where "S = nat ((mx - mn) div st + 1)"
  define ns where "ns = map (\<lambda>k. mn + int k * st) [0..<S]"
  define M where "M = S * length acts * nat R"
  have "0 \<le> (mx - mn) div st" using assms(4,5) by (simp add: pos_imp_zdiv_nonneg_iff)
  then have S1: "1 \<le> S" by (simp add: S_def)
  have len: "length ns = S" by (simp add: ns_def)
  have ar: "arange mn (mx + 1) st = Inr ns"
    unfolding ns_def S_def using assms(4,5) by (rule arange_neurons)
  note res = build_model_ids_Inr[OF assms(1,2) ar, of R, unfolded len, folded M_def]
  have nonneg: "0 \<le> ns ! (m mod S)" for m
  proof -
    have "m mod S < S" using S1 by simp
    then show ?thesis unfolding ns_def using assms(3,5) by simp
  qed
  have a: "runs ns 0 M = concat (map (\<lambda>m. replicate (nat (ns ! (m mod S))) (int m)) [0..<M])"
    by (simp add: runs_def len)
  have b: "int (length (runs ns 0 M)) = (\<Sum>m\<leftarrow>[0..<M]. ns ! (m mod S))"
  proof -
    have "int (length (runs ns 0 M)) = (\<Sum>m\<leftarrow>[0..<M]. int (nat (ns ! (m mod S))))"
      unfolding length_runs len by (induction M) simp_all
    then show ?thesis using nonneg by simp
  qed
  have c: "int (count_list (runs ns 0 M) (int m)) = ns ! (m mod S)" if "m < M" for m
    using that nonneg[of m] by (simp add: count_list_runs len)
  have d: "0 \<le> x \<and> x < int M" if "x \<in> set (runs ns 0 M)" for x
    using that set_runs[of ns 0 M] by auto
  show ?thesis
    unfolding Let_def S_def[symmetric] ns_def[symmetric] M_def[symmetric]
    using S1 res a b c d sorted_runs[of ns 0 M] by auto
qed

theorem build_model_ids_partition_witness:
  "\<exists>output__model_id output__architecture_id.
     build_model_ids 3 [ReLU, Sigmoid] 1 3 2 =
       Some (Inr ([0, 1, 1, 1, 2, 3, 3, 3, 4, 5, 5, 5, 6, 7, 7, 7, 8, 9, 9, 9, 10, 11, 11, 11],
                  output__model_id, output__architecture_id))"
proof -
  have a: "[ReLU, Sigmoid] \<noteq> []" by simp
  have d: "distinct (map (\<lambda>a. class_name (act_class a)) [ReLU, Sigmoid])"
    by (simp add: ReLU_def Sigmoid_def torch_class_def)
  have n: "(0::int) \<le> 1" "(1::int) \<le> 3" "(1::int) \<le> 2" by simp_all
  have S: "nat ((3 - 1) div 2 + 1) = (2::nat)" by simp
  have M: "(2::nat) * length [ReLU, Sigmoid] * nat 3 = 12" by simp
  have u: "[0..<12] = [0,1,2,3,4,5,6,7,8,9,10,11]" "[0..<2] = [0,1]"
    by (simp_all add: upt_conv_Cons)
  have r: "replicate 3 x = [x, x, x]" for x :: int
    by (simp add: eval_nat_numeral)
  from build_model_ids_partition[OF a d n, of 3]
  obtain h om oa where
    b: "build_model_ids 3 [ReLU, Sigmoid] 1 3 2 = Some (Inr (h, om, oa))" and
    h: "h = concat (map (\<lambda>m. replicate (nat (map (\<lambda>k. 1 + int k * 2) [0..<2] ! (m mod 2))) (int m)) [0..<12])"
    unfolding Let_def S M by blast
  have "h = [0, 1, 1, 1, 2, 3, 3, 3, 4, 5, 5, 5, 6, 7, 7, 7, 8, 9, 9, 9, 10, 11, 11, 11]"
    unfolding h u by (simp add: r)
  with b show ?thesis by blast
qed


text \<open>
  The claim asks only for \<open>min \<le> max\<close>. With \<open>min = -1\<close>, \<open>max = 1\<close>, \<open>step = 1\<close>, one
  activation and one repetition, the neuron-count sequence is \<open>[-1, 0, 1]\<close>; the run of
  model 0 is \<^verbatim>\<open>[0] * -1\<close>, the empty list, so model 0 occurs \<open>0\<close> times and not \<open>-1\<close>
  times, and the list has length \<open>1\<close> while the widths sum to \<open>0\<close>.
\<close>

theorem build_model_ids_negative_counterexample:
  "build_model_ids 1 [ReLU] (- 1) 1 1 = Some (Inr ([2], [2], [2])) \<and>
   arange (- 1) (1 + 1) 1 = Inr [- 1, 0, 1] \<and>
   int (count_list [2 :: int] 0) \<noteq> [- 1, 0, 1] ! (0 mod 3) \<and>
   int (length [2 :: int]) \<noteq> (- 1) + 0 + 1"
  by (simp add: build_model_ids_def arange_def Let_def while_models.simps upt_conv_Cons)


section \<open>Properties of the parallel engine\<close>

subsection \<open>Engines in use keep what the constructor has set\<close>

lemma trained_fields:
  assumes "trained e0 e"
  shows "in_features e = in_features e0"
    and "out_features e = out_features e0"
    and "activations e = activations e0"
    and "hidden_neuron__model_id e = hidden_neuron__model_id e0"
    and "output__model_id e = output__model_id e0"
    and "output__architecture_id e = output__architecture_id e0"
    and "total_hidden_neurons e = total_hidden_neurons e0"
    and "unique_model_ids e = unique_model_ids e0"
    and "model_id__num_hidden_neurons e = model_id__num_hidden_neurons e0"
    and "model_id__start_idx e = model_id__start_idx e0"
    and "model_id__end_idx e = model_id__end_idx e0"
    and "num_unique_models e = num_unique_models e0"
    and "num_activations e = num_activations e0"
    and "activations_split e = activations_split e0"
    and "ParallelMLPs.more e = ParallelMLPs.more e0"
proof -
  from assms have eq: "e = e0\<lparr>hidden_layer_weight := hidden_layer_weight e,
             hidden_layer_bias := hidden_layer_bias e,
             weight := weight e, bias := bias e\<rparr>"
    by (simp add: trained_def)
  show "in_features e = in_features e0" using arg_cong[OF eq, of in_features] by simp
  show "out_features e = out_features e0" using arg_cong[OF eq, of out_features] by simp
  show "activations e = activations e0" using arg_cong[OF eq, of activations] by simp
  show "hidden_neuron__model_id e = hidden_neuron__model_id e0"
    using arg_cong[OF eq, of hidden_neuron__model_id] by simp
  show "output__model_id e = output__model_id e0"
    using arg_cong[OF eq, of output__model_id] by simp
  show "output__architecture_id e = output__architecture_id e0"
    using arg_cong[OF eq, of output__architecture_id] by simp
  show "total_hidden_neurons e = total_hidden_neurons e0"
    using arg_cong[OF eq, of total_hidden_neurons] by simp
  show "unique_model_ids e = unique_model_ids e0"
    using arg_cong[OF eq, of unique_model_ids] by simp
  show "model_id__num_hidden_neurons e = model_id__num_hidden_neurons e0"
    using arg_cong[OF eq, of model_id__num_hidden_neurons] by simp
  show "model_id__start_idx e = model_id__start_idx e0"
    using arg_cong[OF eq, of model_id__start_idx] by simp
  show "model_id__end_idx e = model_id__end_idx e0"
    using arg_cong[OF eq, of model_id__end_idx] by simp
  show "num_unique_models e = num_unique_models e0"
    using arg_cong[OF eq, of num_unique_models] by simp
  show "num_activations e = num_activations e0"
    using arg_cong[OF eq, of num_activations] by simp
  show "activations_split e = activations_split e0"
    using arg_cong[OF eq, of activations_split] by simp
  show "ParallelMLPs.more e = ParallelMLPs.more e0"
    using arg_cong[OF eq, of ParallelMLPs.more] by simp
qed

lemma trained_shapes:
  assumes "trained e0 e"
  shows "map length (hidden_layer_weight e) = map length (hidden_layer_weight e0)"
    and "length (hidden_layer_weight e) = length (hidden_layer_weight e0)"
    and "length (hidden_layer_bias e) = length (hidden_layer_bias e0)"
    and "map length (weight e) = map length (weight e0)"
    and "length (weight e) = length (weight e0)"
    and "map length (bias e) = map length (bias e0)"
    and "length (bias e) = length (bias e0)"
  using assms by (auto simp: trained_def same_shape_def dest: map_eq_imp_length_eq)

lemma trainedI:
  assumes "in_features e = in_features e0"
    and "out_features e = out_features e0"
    and "activations e = activations e0"
    and "hidden_neuron__model_id e = hidden_neuron__model_id e0"
    and "output__model_id e = output__model_id e0"
    and "output__architecture_id e = output__architecture_id e0"
    and "total_hidden_neurons e = total_hidden_neurons e0"
    and "unique_model_ids e = unique_model_ids e0"
    and "model_id__num_hidden_neurons e = model_id__num_hidden_neurons e0"
    and "model_id__start_idx e = model_id__start_idx e0"
    and "model_id__end_idx e = model_id__end_idx e0"
    and "num_unique_models e = num_unique_models e0"
    and "num_activations e = num_activations e0"
    and "activations_split e = activations_split e0"
    and "ParallelMLPs.more e = ParallelMLPs.more e0"
    and "map length (hidden_layer_weight e) = map length (hidden_layer_weight e0)"
    and "length (hidden_layer_bias e) = length (hidden_layer_bias e0)"
    and "map length (weight e) = map length (weight e0)"
    and "map length (bias e) = map length (bias e0)"
  shows "trained e0 e"
proof -
  have "e = e0\<lparr>hidden_layer_weight := hidden_layer_weight e,
             hidden_layer_bias := hidden_layer_bias e,
             weight := weight e, bias := bias e\<rparr>"
    by (rule ParallelMLPs.equality) (simp_all add: assms)
  then show ?thesis using assms(16-19) by (simp add: trained_def same_shape_def)
qed

lemma trained_refl: "trained e e"
  by (rule trainedI) simp_all

lemma trained_trans:
  assumes "trained a b" "trained b c"
  shows "trained a c"
  by (rule trainedI)
    (simp_all add: trained_fields[OF assms(1)] trained_fields[OF assms(2)]
      trained_shapes[OF assms(1)] trained_shapes[OF assms(2)])

lemma map_length_upt:
  assumes "\<And>i. i < length xs \<Longrightarrow> length (f i) = length (xs ! i)"
  shows "map (length \<circ> f) [0..<length xs] = map length xs"
  by (rule nth_equalityI) (simp_all add: assms)

lemma reset_one_trained:
  assumes "reset_one self l d = Inr self'"
  shows "trained self self'"
proof -
  from assms obtain start end' out_row hidden_bound out_bound where
    s: "self' = self\<lparr>
            hidden_layer_weight :=
              map (\<lambda>i. if in_slice start end' i
                        then map (\<lambda>j. uniform hidden_bound (draw_hidden_w d i j))
                               [0..<length (hidden_layer_weight self ! i)]
                        else hidden_layer_weight self ! i)
                [0..<length (hidden_layer_weight self)],
            hidden_layer_bias :=
              map (\<lambda>i. if in_slice start end' i
                        then uniform hidden_bound (draw_hidden_b d i)
                        else hidden_layer_bias self ! i)
                [0..<length (hidden_layer_bias self)],
            weight :=
              map (\<lambda>k. map (\<lambda>i. if in_slice start end' i
                                   then uniform out_bound (draw_out_w d k i)
                                   else weight self ! k ! i)
                           [0..<length (weight self ! k)])
                [0..<length (weight self)],
            bias :=
              map (\<lambda>m. if m = out_row
                        then map (\<lambda>k. uniform out_bound (draw_out_b d k))
                               [0..<length (bias self ! m)]
                        else bias self ! m)
                [0..<length (bias self)]\<rparr>"
    by (auto simp: reset_one_def split: sum.splits)
  show ?thesis
    by (rule trainedI) (simp_all add: s map_length_upt)
qed

lemma reset_loop_trained: "trained self (fst (reset_loop self ids k rng))"
proof (induction ids arbitrary: self k)
  case Nil
  show ?case by (simp add: trained_refl)
next
  case (Cons l ids)
  show ?case
  proof (cases "reset_one self l (rng k)")
    case (Inl e)
    then show ?thesis by (simp add: trained_refl)
  next
    case (Inr self')
    then have "trained self self'" by (rule reset_one_trained)
    moreover have "trained self' (fst (reset_loop self' ids (Suc k) rng))" by (rule Cons.IH)
    ultimately show ?thesis using Inr by (simp add: trained_trans)
  qed
qed

lemma init_trained:
  assumes "ParallelMLPs_init n_in n_out ids om oa acts mem rng = Inr e0"
  shows "trained (allocate n_in n_out (map nat ids) om oa acts mem) e0"
    and "acts \<noteq> []" and "\<forall>i\<in>set ids. 0 \<le> i"
proof -
  let ?A = "allocate n_in n_out (map nat ids) om oa acts mem"
  from assms have a: "acts \<noteq> []" and n: "\<forall>i\<in>set ids. 0 \<le> i"
    by (auto simp: ParallelMLPs_init_def split: if_splits)
  from assms a n have "reset_parameters ?A None rng = (e0, None)"
    by (auto simp: ParallelMLPs_init_def split: if_splits prod.splits option.splits)
  then have "e0 = fst (reset_loop ?A (map int (unique_model_ids ?A)) 0 rng)"
    by (simp add: reset_parameters_def)
  then show "trained ?A e0" by (simp add: reset_loop_trained)
  show "acts \<noteq> []" by (rule a)
  show "\<forall>i\<in>set ids. 0 \<le> i" by (rule n)
qed

lemma allocate_fields:
  "in_features (allocate n_in n_out ids om oa acts mem) = n_in"
  "out_features (allocate n_in n_out ids om oa acts mem) = n_out"
  "activations (allocate n_in n_out ids om oa acts mem) = acts"
  "hidden_neuron__model_id (allocate n_in n_out ids om oa acts mem) = ids"
  "output__model_id (allocate n_in n_out ids om oa acts mem) = om"
  "output__architecture_id (allocate n_in n_out ids om oa acts mem) = oa"
  "total_hidden_neurons (allocate n_in n_out ids om oa acts mem) = length ids"
  "unique_model_ids (allocate n_in n_out ids om oa acts mem) = sort (remdups ids)"
  "model_id__num_hidden_neurons (allocate n_in n_out ids om oa acts mem) = bincount ids"
  "model_id__start_idx (allocate n_in n_out ids om oa acts mem) =
     0 # butlast (cumsum (bincount ids))"
  "model_id__end_idx (allocate n_in n_out ids om oa acts mem) =
     map2 (+) (0 # butlast (cumsum (bincount ids))) (bincount ids)"
  "num_unique_models (allocate n_in n_out ids om oa acts mem) = length (sort (remdups ids))"
  "num_activations (allocate n_in n_out ids om oa acts mem) = length acts"
  "activations_split (allocate n_in n_out ids om oa acts mem) = length ids div length acts"
  by (simp_all add: allocate_def Let_def)

lemma allocate_shapes:
  "map length (hidden_layer_weight (allocate n_in n_out ids om oa acts mem)) =
     replicate (length ids) n_in"
  "length (hidden_layer_bias (allocate n_in n_out ids om oa acts mem)) = length ids"
  "map length (weight (allocate n_in n_out ids om oa acts mem)) =
     replicate n_out (length ids)"
  "map length (bias (allocate n_in n_out ids om oa acts mem)) =
     replicate (length (sort (remdups ids))) n_out"
  by (simp_all add: allocate_def Let_def comp_def map_replicate_const)

text \<open>What every engine in use has kept from its construction.\<close>

lemma engine_fields:
  assumes "ParallelMLPs_init n_in n_out ids om oa acts mem rng = Inr e0" and "trained e0 e"
  shows "in_features e = n_in"
    and "out_features e = n_out"
    and "activations e = acts"
    and "hidden_neuron__model_id e = map nat ids"
    and "total_hidden_neurons e = length ids"
    and "num_unique_models e = length (sort (remdups (map nat ids)))"
    and "num_activations e = length acts"
    and "activations_split e = length ids div length acts"
    and "unique_model_ids e = sort (remdups (map nat ids))"
    and "model_id__start_idx e = 0 # butlast (cumsum (bincount (map nat ids)))"
    and "model_id__end_idx e =
           map2 (+) (0 # butlast (cumsum (bincount (map nat ids)))) (bincount (map nat ids))"
    and "output__model_id e = om"
    and "output__architecture_id e = oa"
    and "acts \<noteq> []"
    and "\<forall>i\<in>set ids. 0 \<le> i"
proof -
  let ?A = "allocate n_in n_out (map nat ids) om oa acts mem"
  have t: "trained ?A e"
    using init_trained(1)[OF assms(1)] assms(2) by (rule trained_trans)
  show "in_features e = n_in" "out_features e = n_out" "activations e = acts"
    "hidden_neuron__model_id e = map nat ids" "total_hidden_neurons e = length ids"
    "num_unique_models e = length (sort (remdups (map nat ids)))"
    "num_activations e = length acts"
    "activations_split e = length ids div length acts"
    "unique_model_ids e = sort (remdups (map nat ids))"
    "model_id__start_idx e = 0 # butlast (cumsum (bincount (map nat ids)))"
    "model_id__end_idx e =
           map2 (+) (0 # butlast (cumsum (bincount (map nat ids)))) (bincount (map nat ids))"
    "output__model_id e = om" "output__architecture_id e = oa"
    by (simp_all add: trained_fields[OF t] allocate_fields)
  show "acts \<noteq> []" "\<forall>i\<in>set ids. 0 \<le> i"
    using init_trained(2,3)[OF assms(1)] by simp_all
qed

lemma engine_shapes:
  assumes "ParallelMLPs_init n_in n_out ids om oa acts mem rng = Inr e0" and "trained e0 e"
  shows "length (hidden_layer_weight e) = length ids"
    and "length (hidden_layer_bias e) = length ids"
    and "length (weight e) = n_out"
    and "length (bias e) = num_unique_models e"
    and "\<And>j. j < length ids \<Longrightarrow> length (hidden_layer_weight e ! j) = n_in"
    and "\<And>k. k < n_out \<Longrightarrow> length (weight e ! k) = length ids"
    and "\<And>m. m < num_unique_models e \<Longrightarrow> length (bias e ! m) = n_out"
proof -
  let ?A = "allocate n_in n_out (map nat ids) om oa acts mem"
  have t: "trained ?A e"
    using init_trained(1)[OF assms(1)] assms(2) by (rule trained_trans)
  have hw: "map length (hidden_layer_weight e) = replicate (length ids) n_in"
    and w: "map length (weight e) = replicate n_out (length ids)"
    and b: "map length (bias e) = replicate (num_unique_models e) n_out"
    using trained_shapes[OF t] by (simp_all add: allocate_shapes engine_fields[OF assms])
  show l1: "length (hidden_layer_weight e) = length ids"
    using arg_cong[OF hw, of length] by simp
  show "length (hidden_layer_bias e) = length ids"
    using trained_shapes(3)[OF t] by (simp add: allocate_shapes)
  show l3: "length (weight e) = n_out" using arg_cong[OF w, of length] by simp
  show l4: "length (bias e) = num_unique_models e" using arg_cong[OF b, of length] by simp
  show "length (hidden_layer_weight e ! j) = n_in" if "j < length ids" for j
    using arg_cong[OF hw, of "\<lambda>xs. xs ! j"] that l1 by simp
  show "length (weight e ! k) = length ids" if "k < n_out" for k
    using arg_cong[OF w, of "\<lambda>xs. xs ! k"] that l3 by simp
  show "length (bias e ! m) = n_out" if "m < num_unique_models e" for m
    using arg_cong[OF b, of "\<lambda>xs. xs ! m"] that l4 by simp
qed

subsection \<open>Splitting into segments\<close>

lemma split_sizes_take:
  assumes "0 < K" "0 < s" "K * s \<le> n"
  shows "\<exists>sizes. split_sizes n s = Inr sizes \<and> take K sizes = replicate K s \<and> hd sizes = s"
proof -
  let ?num = "max ((n + s - 1) div s) 1"
  let ?last = "s - (s * ?num - n)"
  have "K * s div s \<le> (n + s - 1) div s"
    using assms by (intro div_le_mono) simp
  then have K: "K \<le> ?num" using assms(2) by simp
  have sz: "split_sizes n s = Inr (replicate (?num - 1) s @ [?last])"
    using assms(2) by (simp add: split_sizes_def Let_def)
  have "take K (replicate (?num - 1) s @ [?last]) = replicate K s"
  proof (cases "K = ?num")
    case True
    then have "s * ?num \<le> n" using assms(3) by (simp add: mult.commute)
    then have "?last = s" by simp
    moreover have "replicate (K - 1) s @ [s] = replicate K s"
      using assms(1) by (cases K) (simp_all add: replicate_append_same)
    ultimately show ?thesis using True by simp
  next
    case False
    with K have "K \<le> ?num - 1" by simp
    then show ?thesis by (simp add: min_def)
  qed
  moreover from this have "hd (replicate (?num - 1) s @ [?last]) = s"
    using assms(1) by (metis hd_replicate hd_take not_gr_zero replicate_empty)
  ultimately show ?thesis using sz by blast
qed

lemma zip_take_length: "zip xs ys = zip xs (take (length xs) ys)"
proof (induction xs arbitrary: ys)
  case Nil
  show ?case by simp
next
  case (Cons x xs)
  then show ?case by (cases ys) simp_all
qed

lemma split_row_take: "take n (split_row ss xs) = split_row (take n ss) xs"
proof (induction ss arbitrary: n xs)
  case Nil
  show ?case by simp
next
  case (Cons s ss)
  then show ?case by (cases n) simp_all
qed

lemma apply_activations_segments:
  assumes "0 < length (activations self)" "0 < activations_split self"
    and "length (activations self) * activations_split self \<le> n"
  shows "apply_activations self n x =
     Inr (length (activations self) * activations_split self,
          map (\<lambda>row. concat (map2 (\<lambda>act chunk. map (act_fn act) chunk) (activations self)
                 (split_row (replicate (length (activations self)) (activations_split self))
                    row))) x)"
proof -
  let ?K = "length (activations self)" and ?s = "activations_split self"
  from split_sizes_take[OF assms] obtain sizes where
    sz: "split_sizes n ?s = Inr sizes" and tk: "take ?K sizes = replicate ?K ?s"
    and hd: "hd sizes = ?s"
    by blast
  have z: "zip (activations self) sizes = zip (activations self) (replicate ?K ?s)"
    using zip_take_length[of "activations self" sizes] tk by simp
  have no: "\<not> (\<exists>(act, s') \<in> set (zip (activations self) (replicate ?K ?s)). s' \<noteq> ?s)"
    by (auto dest: set_zip_rightD)
  have ne: "zip (activations self) (replicate ?K ?s) \<noteq> []"
    using assms(1) by (cases "activations self") simp_all
  have sm: "sum_list (map snd (zip (activations self) (replicate ?K ?s))) = ?K * ?s"
  proof -
    have r: "sum_list (replicate k (c::nat)) = k * c" for k c by (induction k) simp_all
    have m: "map snd (zip (activations self) (replicate ?K ?s)) = replicate ?K ?s"
      by (rule map_snd_zip) simp
    show ?thesis unfolding m r ..
  qed
  have rows: "map2 f (activations self) (split_row sizes row) =
      map2 f (activations self) (split_row (replicate ?K ?s) row)" for f row
  proof -
    have "zip (activations self) (split_row sizes row) =
        zip (activations self) (take ?K (split_row sizes row))"
      by (rule zip_take_length)
    then show ?thesis by (simp add: split_row_take tk)
  qed
  have r: "sum_list (replicate k (c::nat)) = k * c" for k c by (induction k) simp_all
  have a: "activations self \<noteq> []" using assms(1) by auto
  show ?thesis
    unfolding apply_activations_def sz
    by (simp add: Let_def hd z no ne sm rows r a del: split_paired_Ex)
qed

subsection \<open>Segments that are not uniform\<close>





subsection \<open>Offsets of the models\<close>












subsection \<open>The constructor returns\<close>





subsection \<open>Blocks of equal length\<close>

lemma length_concat_blocks:
  assumes "\<And>c. c < K \<Longrightarrow> length (f c) = s"
  shows "length (concat (map f [0..<K])) = K * s"
  using assms by (induction K) simp_all

lemma concat_blocks_nth:
  assumes "\<And>c. c < K \<Longrightarrow> length (f c) = s" and "j < K * s"
  shows "concat (map f [0..<K]) ! j = f (j div s) ! (j mod s)"
  using assms
proof (induction K)
  case 0
  then show ?case by simp
next
  case (Suc K)
  have len: "length (concat (map f [0..<K])) = K * s"
    using Suc.prems(1) by (intro length_concat_blocks) simp
  show ?case
  proof (cases "j < K * s")
    case True
    then have "concat (map f [0..<K]) ! j = f (j div s) ! (j mod s)"
      using Suc.IH Suc.prems(1) by simp
    then show ?thesis using True len by (simp add: nth_append)
  next
    case False
    then have ge: "K * s \<le> j" by simp
    have d: "j div s = K"
      using ge Suc.prems(2) by (intro div_nat_eqI) (simp_all add: mult.commute)
    have "j mod s = j - K * s"
      using d by (metis minus_mult_div_eq_mod mult.commute)
    then show ?thesis using False len d by (simp add: nth_append)
  qed
qed

lemma split_row_replicate:
  "split_row (replicate K s) row = map (\<lambda>c. take s (drop (c * s) row)) [0..<K]"
proof (induction K arbitrary: row)
  case 0
  show ?case by simp
next
  case (Suc K)
  have "map (\<lambda>c. take s (drop (c * s) row)) [0..<Suc K] =
      take s row # map (\<lambda>c. take s (drop (Suc c * s) row)) [0..<K]"
    by (simp add: upt_conv_Cons map_Suc_upt[symmetric] del: upt_Suc)
  also have "map (\<lambda>c. take s (drop (Suc c * s) row)) [0..<K] =
      map (\<lambda>c. take s (drop (c * s) (drop s row))) [0..<K]"
    by (simp add: add.commute)
  finally show ?case using Suc.IH[of "drop s row"] by simp
qed

lemma activated_row:
  assumes "length row = K * s" "length acts = K"
  shows "concat (map2 (\<lambda>act chunk. map (act_fn act) chunk) acts
                   (split_row (replicate K s) row)) =
         map (\<lambda>j. act_fn (acts ! (j div s)) (row ! j)) [0..<K * s]"
proof -
  let ?f = "\<lambda>c. map (act_fn (acts ! c)) (take s (drop (c * s) row))"
  have m: "map2 (\<lambda>act chunk. map (act_fn act) chunk) acts (split_row (replicate K s) row) =
      map ?f [0..<K]"
    unfolding split_row_replicate
    by (rule nth_equalityI) (simp_all add: assms(2))
  have len: "length (?f c) = s" if "c < K" for c
  proof -
    have "Suc c * s \<le> K * s" using that by (intro mult_le_mono1) simp
    then show ?thesis using assms(1) by simp
  qed
  show ?thesis
    unfolding m
  proof (rule nth_equalityI)
    show "length (concat (map ?f [0..<K])) =
        length (map (\<lambda>j. act_fn (acts ! (j div s)) (row ! j)) [0..<K * s])"
      using length_concat_blocks[of K ?f s] len by simp
  next
    fix j
    assume "j < length (concat (map ?f [0..<K]))"
    then have j: "j < K * s" using length_concat_blocks[of K ?f s] len by simp
    then have s: "0 < s" by (cases s) simp_all
    have c: "j div s < K" using j s by (simp add: less_mult_imp_div_less)
    have "j div s * s \<le> j" by simp
    then have "j div s * s \<le> length row" using assms(1) j by linarith
    then have "drop (j div s * s) row ! (j mod s) = row ! (j div s * s + j mod s)"
      by (rule nth_drop)
    then have "take s (drop (j div s * s) row) ! (j mod s) = row ! j"
      using s by simp
    moreover have "j mod s < length (take s (drop (j div s * s) row))"
      using len[OF c] s by simp
    ultimately have "?f (j div s) ! (j mod s) = act_fn (acts ! (j div s)) (row ! j)"
      by (simp del: length_take length_drop nth_take nth_drop)
    then show "concat (map ?f [0..<K]) ! j =
        map (\<lambda>j. act_fn (acts ! (j div s)) (row ! j)) [0..<K * s] ! j"
      using concat_blocks_nth[of K ?f s j] len j by simp
  qed
qed

text \<open>
  \<^verbatim>\<open>apply_activations\<close> when the segments are uniform: hidden neuron \<open>j\<close> gets the
  activation of the segment \<open>j div activations_split\<close> it lies in.
\<close>

lemma apply_activations_uniform:
  assumes "0 < length (activations self)" "0 < activations_split self"
    and "n = length (activations self) * activations_split self"
    and "\<forall>row\<in>set x. length row = n"
  shows "apply_activations self n x =
     Inr (n, map (\<lambda>row. map (\<lambda>j. act_fn (activations self ! (j div activations_split self))
                                  (row ! j)) [0..<n]) x)"
proof -
  have le: "length (activations self) * activations_split self \<le> n" using assms(3) by simp
  have "map (\<lambda>row. concat (map2 (\<lambda>act chunk. map (act_fn act) chunk) (activations self)
                 (split_row (replicate (length (activations self)) (activations_split self))
                    row))) x =
      map (\<lambda>row. map (\<lambda>j. act_fn (activations self ! (j div activations_split self))
                                  (row ! j)) [0..<n]) x"
    by (rule map_cong) (use assms(3,4) in \<open>simp_all add: activated_row\<close>)
  then show ?thesis
    using apply_activations_segments[OF assms(1,2) le, of x] assms(3) by simp
qed

subsection \<open>Forward calls on engines with uneven segments\<close>



section \<open>Properties of the confusion matrix\<close>

subsection \<open>What \<^verbatim>\<open>update\<close> computes\<close>

lemma and_then_simps [simp]:
  "and_then (Inl e) f = Inl e" "and_then (Inr a) f = f a"
  by (simp_all add: and_then_def)

lemma sequence_append:
  "sequence (xs @ ys) =
     and_then (sequence xs) (\<lambda>a. and_then (sequence ys) (\<lambda>b. Inr (a @ b)))"
  by (induction xs) (auto simp: and_then_def split: sum.splits)

lemma at_dim_less: "i < d \<Longrightarrow> at_dim d i = i"
  by (auto simp: at_dim_def)

lemma map2_nth:
  assumes "length ys = length xs"
  shows "map (\<lambda>i. f (xs ! i) (ys ! i)) [0..<length xs] = map2 f xs ys"
  by (rule nth_equalityI) (simp_all add: assms)

lemma index_positions_zip:
  assumes "length rows = length tv"
  shows "index_positions classes models tv n rows (length tv) width =
         sequence (concat (map2 (sample_positions classes models n width) tv rows))"
proof -
  have "map (\<lambda>i. sample_positions classes models n width
                 (tv ! at_dim (length tv) i) (rows ! at_dim (length rows) i)) [0..<length tv]
        = map (\<lambda>i. sample_positions classes models n width (tv ! i) (rows ! i)) [0..<length tv]"
    by (rule map_cong) (simp_all add: at_dim_less assms)
  also have "\<dots> = map2 (sample_positions classes models n width) tv rows"
    using assms by (rule map2_nth)
  finally show ?thesis by (simp add: index_positions_def)
qed

lemma update_ClassIndices:
  assumes "length rows = length tv"
  shows "update ok self \<lparr>p_device = pd, p_values = ClassIndices n rows\<rparr>
           \<lparr>t_device = td, t_values = tv\<rparr> =
         (case broadcast_dim (n_models self) n of
            None \<Rightarrow> Inl shape_error
          | Some width \<Rightarrow>
              if td = device self \<or> ok (device self) td
              then and_then
                     (sequence (concat (map2
                        (sample_positions (n_classes self) [0..<n_models self] n width) tv rows)))
                     (\<lambda>ps. Inr (self\<lparr>cm := foldl add_one (cm self) ps\<rparr>))
              else Inl device_error)"
proof -
  have b: "broadcast_dim (length tv) (length rows) = Some (length tv)"
    using assms by (simp add: broadcast_dim_def)
  have i: "update_indices self \<lparr>p_device = pd, p_values = ClassIndices n rows\<rparr>
             \<lparr>t_device = td, t_values = tv\<rparr> =
           Inr \<lparr>models_index = (device self, [0..<n_models self]),
                targets_index = \<lparr>t_device = td, t_values = tv\<rparr>,
                predictions_index = \<lparr>p_device = device self, p_values = ClassIndices n rows\<rparr>\<rparr>"
    by (simp add: update_indices_def)
  show ?thesis
  proof (cases "broadcast_dim (n_models self) n")
    case None
    then show ?thesis
      by (simp add: update_def i index_put_accumulate_def b)
  next
    case (Some width)
    then show ?thesis
      by (simp add: update_def i index_put_accumulate_def b
            index_positions_zip[OF assms])
  qed
qed


lemma update_ClassScores:
  "update ok self \<lparr>p_device = pd, p_values = ClassScores n c scores\<rparr> targets =
     (if c = 0 then Inl argmax_error
      else update ok self
             \<lparr>p_device = pd,
              p_values = ClassIndices n (map (map (\<lambda>scores. int (argmax scores))) scores)\<rparr>
             targets)"
  by (simp add: update_def update_indices_def)

lemma update_split_indices:
  assumes "length rows1 = length targets1" "length rows2 = length targets2"
  shows "update ok self \<lparr>p_device = pd, p_values = ClassIndices n (rows1 @ rows2)\<rparr>
           \<lparr>t_device = td, t_values = targets1 @ targets2\<rparr> =
         and_then
           (update ok self \<lparr>p_device = pd, p_values = ClassIndices n rows1\<rparr>
              \<lparr>t_device = td, t_values = targets1\<rparr>)
           (\<lambda>self'. update ok self' \<lparr>p_device = pd, p_values = ClassIndices n rows2\<rparr>
              \<lparr>t_device = td, t_values = targets2\<rparr>)"
proof -
  have l: "length (rows1 @ rows2) = length (targets1 @ targets2)" using assms by simp
  note u = update_ClassIndices[OF l] update_ClassIndices[OF assms(1)] update_ClassIndices[OF assms(2)]
  show ?thesis
  proof (cases "broadcast_dim (n_models self) n")
    case None
    then show ?thesis unfolding u by simp
  next
    case (Some width)
    let ?f = "sample_positions (n_classes self) [0..<n_models self] n width"
    have z: "concat (map2 ?f (targets1 @ targets2) (rows1 @ rows2))
             = concat (map2 ?f targets1 rows1) @ concat (map2 ?f targets2 rows2)"
      using assms by simp
    show ?thesis
    proof (cases "td = device self \<or> ok (device self) td")
      case False
      then show ?thesis unfolding u using Some by simp
    next
      case True
      show ?thesis
      proof (cases "sequence (concat (map2 ?f targets1 rows1))")
        case (Inl e)
        then show ?thesis using Some True by (simp add: u z sequence_append)
      next
        case a: (Inr ps1)
        show ?thesis
        proof (cases "sequence (concat (map2 ?f targets2 rows2))")
          case (Inl e)
          then show ?thesis using Some True a by (simp add: u z sequence_append)
        next
          case (Inr ps2)
          then show ?thesis using Some True a by (simp add: u z sequence_append)
        qed
      qed
    qed
  qed
qed


subsection \<open>Updating in two batches\<close>

text \<open>
  Claim C6. A batch of predictions (class indices of shape \<open>[batch, n]\<close>, or class scores of
  shape \<open>[batch, n, c]\<close>) and targets is split into two consecutive sub-batches, each with
  as many prediction rows as targets. Calling \<^verbatim>\<open>update\<close> on the first sub-batch and then,
  on the resulting state, on the second gives exactly the result of one \<^verbatim>\<open>update\<close> on
  the whole batch: the same state when the calls succeed, and an exception in the one
  case exactly when there is one in the other. This holds for every state, every device
  and every rule of the library about devices.
\<close>

theorem update_two_batches:
  assumes "length rows1 = length targets1" "length rows2 = length targets2"
    and "length scores1 = length targets1" "length scores2 = length targets2"
  shows
    "update ok self \<lparr>p_device = pd, p_values = ClassIndices n (rows1 @ rows2)\<rparr>
         \<lparr>t_device = td, t_values = targets1 @ targets2\<rparr> =
       and_then
         (update ok self \<lparr>p_device = pd, p_values = ClassIndices n rows1\<rparr>
            \<lparr>t_device = td, t_values = targets1\<rparr>)
         (\<lambda>self'. update ok self' \<lparr>p_device = pd, p_values = ClassIndices n rows2\<rparr>
            \<lparr>t_device = td, t_values = targets2\<rparr>) \<and>
     update ok self \<lparr>p_device = pd, p_values = ClassScores n c (scores1 @ scores2)\<rparr>
         \<lparr>t_device = td, t_values = targets1 @ targets2\<rparr> =
       and_then
         (update ok self \<lparr>p_device = pd, p_values = ClassScores n c scores1\<rparr>
            \<lparr>t_device = td, t_values = targets1\<rparr>)
         (\<lambda>self'. update ok self' \<lparr>p_device = pd, p_values = ClassScores n c scores2\<rparr>
            \<lparr>t_device = td, t_values = targets2\<rparr>)"
proof
  show "update ok self \<lparr>p_device = pd, p_values = ClassIndices n (rows1 @ rows2)\<rparr>
         \<lparr>t_device = td, t_values = targets1 @ targets2\<rparr> =
       and_then
         (update ok self \<lparr>p_device = pd, p_values = ClassIndices n rows1\<rparr>
            \<lparr>t_device = td, t_values = targets1\<rparr>)
         (\<lambda>self'. update ok self' \<lparr>p_device = pd, p_values = ClassIndices n rows2\<rparr>
            \<lparr>t_device = td, t_values = targets2\<rparr>)"
    using assms(1,2) by (rule update_split_indices)
next
  let ?am = "map (map (\<lambda>scores. int (argmax scores)))"
  have "length (?am scores1) = length targets1" "length (?am scores2) = length targets2"
    using assms(3,4) by simp_all
  from update_split_indices[OF this, of ok self pd n td]
  show "update ok self \<lparr>p_device = pd, p_values = ClassScores n c (scores1 @ scores2)\<rparr>
         \<lparr>t_device = td, t_values = targets1 @ targets2\<rparr> =
       and_then
         (update ok self \<lparr>p_device = pd, p_values = ClassScores n c scores1\<rparr>
            \<lparr>t_device = td, t_values = targets1\<rparr>)
         (\<lambda>self'. update ok self' \<lparr>p_device = pd, p_values = ClassScores n c scores2\<rparr>
            \<lparr>t_device = td, t_values = targets2\<rparr>)"
    by (simp add: update_ClassScores)
qed

theorem update_two_batches_witness:
  "update (\<lambda>self_device index_device. False) (MultiConfusionMatrix_init 2 2 ''cpu'')
       \<lparr>p_device = ''cpu'', p_values = ClassIndices 2 ([[0, 1]] @ [[1, 1], [0, 0]])\<rparr>
       \<lparr>t_device = ''cpu'', t_values = [0] @ [1, 0]\<rparr> =
     and_then
       (update (\<lambda>self_device index_device. False) (MultiConfusionMatrix_init 2 2 ''cpu'')
          \<lparr>p_device = ''cpu'', p_values = ClassIndices 2 [[0, 1]]\<rparr>
          \<lparr>t_device = ''cpu'', t_values = [0]\<rparr>)
       (\<lambda>self'. update (\<lambda>self_device index_device. False) self'
          \<lparr>p_device = ''cpu'', p_values = ClassIndices 2 [[1, 1], [0, 0]]\<rparr>
          \<lparr>t_device = ''cpu'', t_values = [1, 0]\<rparr>) \<and>
   update (\<lambda>self_device index_device. False) (MultiConfusionMatrix_init 2 2 ''cpu'')
       \<lparr>p_device = ''cpu'',
        p_values = ClassScores 2 2 ([[[1, 0], [0, 1]]] @ [[[0, 1], [0, 1]], [[1, 0], [1, 0]]])\<rparr>
       \<lparr>t_device = ''cpu'', t_values = [0] @ [1, 0]\<rparr> =
     and_then
       (update (\<lambda>self_device index_device. False) (MultiConfusionMatrix_init 2 2 ''cpu'')
          \<lparr>p_device = ''cpu'', p_values = ClassScores 2 2 [[[1, 0], [0, 1]]]\<rparr>
          \<lparr>t_device = ''cpu'', t_values = [0]\<rparr>)
       (\<lambda>self'. update (\<lambda>self_device index_device. False) self'
          \<lparr>p_device = ''cpu'',
           p_values = ClassScores 2 2 [[[0, 1], [0, 1]], [[1, 0], [1, 0]]]\<rparr>
          \<lparr>t_device = ''cpu'', t_values = [1, 0]\<rparr>)"
  by (rule update_two_batches) simp_all

subsection \<open>Tensors on other devices\<close>






subsection \<open>The degenerate Matthews correlation coefficient\<close>

lemma sum_list_squares_word:
  fixes xs :: "int64 list"
  shows "sum_list (map2 (*) xs xs) = word_of_int (\<Sum>x\<leftarrow>xs. (sint x)\<^sup>2)"
proof (induction xs)
  case Nil then show ?case by simp
next
  case (Cons x xs)
  have "x * x = word_of_int ((sint x)\<^sup>2)"
    by (simp add: power2_eq_square)
  then show ?case using Cons by simp
qed

lemma cov_word:
  fixes total' :: int64 and xs :: "int64 list"
  shows "total' ^ 2 - sum_list (map2 (*) xs xs)
           = word_of_int ((sint total')\<^sup>2 - (\<Sum>x\<leftarrow>xs. (sint x)\<^sup>2))"
  by (simp add: sum_list_squares_word power2_eq_square)

lemma matthews_corrcoef_of_nth:
  assumes "m < length C" "length tp' = length C"
  shows "matthews_corrcoef_of classes C tp' total' ! m =
     (let t = row_sums (C ! m); p = col_sums classes (C ! m);
          pp = total' ^ 2 - sum_list (map2 (*) p p);
          tt = total' ^ 2 - sum_list (map2 (*) t t)
      in if pp * tt = 0 then Finite sentinel
         else float_div (float_of_int64 (sum64 (tp' ! m) * total' - sum_list (map2 (*) t p)))
                (float_sqrt (tt * pp)))"
  using assms by (simp add: matthews_corrcoef_of_def Let_def)


text \<open>
  Claim C7. \<open>total\<close> is the sum of model 0's matrix, as in the code; the row sums and
  column sums are those of model \<open>m\<close>'s matrix; all are read as the integers they stand
  for. When \<open>(total\<^sup>2 - \<Sum> row_sum\<^sup>2) * (total\<^sup>2 - \<Sum> col_sum\<^sup>2)\<close> is exactly zero,
  \<^verbatim>\<open>calculate_metrics\<close> returns, and model \<open>m\<close>'s coefficient is the sentinel \<open>10\<^sup>-\<^sup>9\<close>, not
  \<open>NaN\<close>. The witness has a model that predicted class 0 for all five samples.
\<close>

theorem degenerate_mcc_is_sentinel:
  assumes "m < length (cm self)"
    and "(let total' = sum64 (concat (hd (cm self)));
              t_sum = row_sums (cm self ! m);
              p_sum = col_sums (n_classes self) (cm self ! m)
          in ((sint total')\<^sup>2 - (\<Sum>x\<leftarrow>t_sum. (sint x)\<^sup>2)) *
             ((sint total')\<^sup>2 - (\<Sum>x\<leftarrow>p_sum. (sint x)\<^sup>2))) = 0"
  shows "\<exists>result. calculate_metrics self = Inr result \<and>
           matthews_corrcoef result ! m = Finite (1 / 10 ^ 9) \<and>
           matthews_corrcoef result ! m \<noteq> NaN"
proof -
  obtain first others where c: "cm self = first # others"
    using assms(1) by (cases "cm self") auto
  define total' where "total' = sum64 (concat first)"
  define tp' where "tp' = map (\<lambda>m. map (\<lambda>c. m ! c ! c) [0..<n_classes self]) (cm self)"
  let ?t = "row_sums (cm self ! m)" and ?p = "col_sums (n_classes self) (cm self ! m)"
  let ?tt = "total' ^ 2 - sum_list (map2 (*) ?t ?t)"
  let ?pp = "total' ^ 2 - sum_list (map2 (*) ?p ?p)"
  have "((sint total')\<^sup>2 - (\<Sum>x\<leftarrow>?t. (sint x)\<^sup>2)) *
        ((sint total')\<^sup>2 - (\<Sum>x\<leftarrow>?p. (sint x)\<^sup>2)) = 0"
    using assms(2) by (simp add: Let_def c total'_def)
  then consider
      (t) "(sint total')\<^sup>2 - (\<Sum>x\<leftarrow>?t. (sint x)\<^sup>2) = 0"
    | (p) "(sint total')\<^sup>2 - (\<Sum>x\<leftarrow>?p. (sint x)\<^sup>2) = 0"
    by (auto simp only: mult_eq_0_iff)
  then have z: "?pp * ?tt = 0"
  proof cases
    case t
    have "?tt = 0" by (simp only: cov_word t word_of_int_0)
    then show ?thesis by (simp only: mult_zero_right)
  next
    case p
    have "?pp = 0" by (simp only: cov_word p word_of_int_0)
    then show ?thesis by (simp only: mult_zero_left)
  qed
  have l: "length tp' = length (cm self)" by (simp add: tp'_def)
  have "matthews_corrcoef_of (n_classes self) (cm self) tp' total' ! m = Finite sentinel"
    using z by (simp add: matthews_corrcoef_of_nth[OF assms(1) l] Let_def)
  moreover have "\<exists>result. calculate_metrics self = Inr result \<and>
      matthews_corrcoef result = matthews_corrcoef_of (n_classes self) (cm self) tp' total'"
    by (simp add: calculate_metrics_def c Let_def tp'_def total'_def)
  ultimately show ?thesis by (auto simp: sentinel_def)
qed

theorem degenerate_mcc_is_sentinel_witness:
  "\<exists>result. calculate_metrics
       \<lparr>n_models = 2, n_classes = 2, cm = [[[2, 1], [0, 2]], [[3, 0], [2, 0]]], device = ''cpu''\<rparr>
       = Inr result \<and>
     matthews_corrcoef result ! 1 = Finite (1 / 10 ^ 9) \<and>
     matthews_corrcoef result ! 1 \<noteq> NaN"
  using degenerate_mcc_is_sentinel
    [of 1 "\<lparr>n_models = 2, n_classes = 2, cm = [[[2, 1], [0, 2]], [[3, 0], [2, 0]]], device = ''cpu''\<rparr>"]
  by (simp add: sum64_def row_sums_def col_sums_def Let_def upt_conv_Cons)

subsection \<open>Every update counts every sample once for every model\<close>

lemma sint_add_of_nat:
  fixes x :: int32
  assumes "sint x + int h < 2 ^ 31"
  shows "sint (x + of_nat h) = sint x + int h"
proof -
  have "x + of_nat h = word_of_int (sint x + int h)" by simp
  then have "sint (x + of_nat h) = signed_take_bit 31 (sint x + int h)"
    by (simp only: sint_sbintrunc') simp
  moreover have "- (2 ^ 31) \<le> sint x" using sint_ge[of x] by simp
  ultimately show ?thesis using assms
    by (simp add: signed_take_bit_int_eq_self)
qed

lemma sequence_Inr_iff:
  "sequence xs = Inr ys \<longleftrightarrow> xs = map Inr ys"
proof (induction xs arbitrary: ys)
  case Nil then show ?case by auto
next
  case (Cons x xs)
  show ?case
  proof (cases x)
    case (Inl e) then show ?thesis by auto
  next
    case (Inr a)
    then show ?thesis using Cons[of "tl ys"]
      by (cases ys; cases "sequence xs") auto
  qed
qed

lemma sequence_append_Inr:
  assumes "sequence (xs @ rest) = Inr ps"
  obtains a b where "sequence xs = Inr a" "sequence rest = Inr b" "ps = a @ b"
  using assms unfolding sequence_append
  by (cases "sequence xs"; cases "sequence rest") auto

lemma sequence_concat_Inr:
  assumes "sequence (concat xss) = Inr ps"
  shows "\<exists>yss. ps = concat yss \<and> list_all2 (\<lambda>xs ys. sequence xs = Inr ys) xss yss"
  using assms
proof (induction xss arbitrary: ps)
  case Nil
  then show ?case by simp
next
  case (Cons xs xss)
  have "sequence (xs @ concat xss) = Inr ps" using Cons.prems by simp
  then obtain a b where
    a: "sequence xs = Inr a" and b: "sequence (concat xss) = Inr b" and ps: "ps = a @ b"
    by (rule sequence_append_Inr)
  from Cons.IH[OF b] obtain yss where "b = concat yss"
    "list_all2 (\<lambda>xs ys. sequence xs = Inr ys) xss yss" by blast
  then have "ps = concat (a # yss) \<and> list_all2 (\<lambda>xs ys. sequence xs = Inr ys) (xs # xss) (a # yss)"
    using a ps by simp
  then show ?case by blast
qed

lemma wrap_index_less: "wrap_index C v = Inr k \<Longrightarrow> k < C"
  by (auto simp: wrap_index_def split: if_splits)

lemma sample_positions_Inr:
  assumes "sequence (sample_positions C [0..<N] N N t row) = Inr ys"
  shows "map fst ys = [0..<N]"
    and "\<forall>pos\<in>set ys. fst (snd pos) < C \<and> snd (snd pos) < C"
proof -
  have eq: "sample_positions C [0..<N] N N t row = map Inr ys"
    using assms by (simp add: sequence_Inr_iff)
  have len: "length ys = N"
    using arg_cong[OF eq, of length] by (simp add: sample_positions_def)
  have nth: "fst (ys ! j) = j \<and> fst (snd (ys ! j)) < C \<and> snd (snd (ys ! j)) < C"
    if j: "j < N" for j
  proof -
    have "sample_positions C [0..<N] N N t row ! j = Inr (ys ! j)"
      using eq j len by simp
    then have "and_then (wrap_index C t) (\<lambda>t'.
       and_then (wrap_index C (row ! j)) (\<lambda>p. Inr (j, t', p))) = Inr (ys ! j)"
      using j by (simp add: sample_positions_def at_dim_less)
    then obtain t' p where "wrap_index C t = Inr t'" "wrap_index C (row ! j) = Inr p"
        "ys ! j = (j, t', p)"
      by (cases "wrap_index C t"; cases "wrap_index C (row ! j)") auto
    then show ?thesis using wrap_index_less by simp
  qed
  show "map fst ys = [0..<N]"
    by (rule nth_equalityI) (simp_all add: len nth)
  show "\<forall>pos\<in>set ys. fst (snd pos) < C \<and> snd (snd pos) < C"
    unfolding all_set_conv_all_nth using nth len by simp
qed

lemma model_hits_sample:
  assumes "map fst ys = [0..<N]" "m < N"
  shows "length (filter (\<lambda>pos. fst pos = m) ys) = 1"
proof -
  have "length (filter (\<lambda>pos. fst pos = m) ys) = length (filter (\<lambda>k. k = m) (map fst ys))"
    by (simp add: filter_map comp_def)
  also have "\<dots> = length (filter (\<lambda>k. k = m) [0..<N])" by (simp only: assms(1))
  also have "\<dots> = count_list [0..<N] m"
    by (induction N) auto
  also have "\<dots> = 1" using assms(2) by (induction N) (auto simp: less_Suc_eq)
  finally show ?thesis .
qed

lemma model_hits_batch:
  assumes "\<forall>ys\<in>set yss. map fst ys = [0..<N]" "m < N"
  shows "length (filter (\<lambda>pos. fst pos = m) (concat yss)) = length yss"
  using assms(1) by (induction yss) (simp_all add: model_hits_sample[OF _ assms(2)])

lemma length_nth_list_update:
  "length y = length (xs ! i) \<Longrightarrow> length (xs[i := y] ! j) = length (xs ! j)"
  by (cases "i < length xs") (auto simp: nth_list_update list_update_beyond)

lemma add_one_shape:
  assumes "cm_shape N C c"
  shows "cm_shape N C (add_one c pos)"
proof -
  obtain m t p where pos: "pos = (m, t, p)" by (cases pos) auto
  let ?row = "(c ! m ! t)[p := c ! m ! t ! p + 1]"
  let ?mat = "(c ! m)[t := ?row]"
  have len: "length (c[m := ?mat]) = N" using assms by (simp add: cm_shape_def)
  have rows: "length (c[m := ?mat] ! ma) = C" if "ma < N" for ma
    using assms that by (simp add: length_nth_list_update cm_shape_def)
  have cells: "length (c[m := ?mat] ! ma ! ta) = C" if "ma < N" "ta < C" for ma ta
  proof (cases "ma = m")
    case True
    then have "c[m := ?mat] ! ma = ?mat" using that assms by (simp add: cm_shape_def)
    then show ?thesis using assms that True
      by (simp add: length_nth_list_update cm_shape_def)
  next
    case False
    then show ?thesis using assms that by (simp add: cm_shape_def)
  qed
  show ?thesis
    unfolding pos add_one_def cm_shape_def using len rows cells by simp
qed

lemma add_one_nth:
  assumes "cm_shape N C c" "m' < N" "t' < C" "p' < C" "m < N" "t < C" "p < C"
  shows "add_one c (m', t', p') ! m ! t ! p =
           c ! m ! t ! p + (if (m', t', p') = (m, t, p) then 1 else 0)"
  using assms unfolding cm_shape_def add_one_def
  by (auto simp: nth_list_update)

lemma foldl_add_one_shape:
  "cm_shape N C c \<Longrightarrow> cm_shape N C (foldl add_one c ps)"
  by (induction ps arbitrary: c) (simp_all add: add_one_shape)

lemma foldl_add_one_nth:
  assumes "cm_shape N C c"
    and "\<forall>pos\<in>set ps. fst pos < N \<and> fst (snd pos) < C \<and> snd (snd pos) < C"
    and "m < N" "t < C" "p < C"
  shows "foldl add_one c ps ! m ! t ! p = c ! m ! t ! p + of_nat (count_list ps (m, t, p))"
  using assms(1,2)
proof (induction ps arbitrary: c)
  case Nil
  then show ?case by simp
next
  case (Cons pos ps)
  obtain m' t' p' where pos: "pos = (m', t', p')" by (cases pos) auto
  have v: "m' < N" "t' < C" "p' < C" using Cons.prems(2) pos by auto
  have "foldl add_one (add_one c pos) ps ! m ! t ! p =
          add_one c pos ! m ! t ! p + of_nat (count_list ps (m, t, p))"
    using Cons.prems by (intro Cons.IH add_one_shape) auto
  also have "add_one c pos ! m ! t ! p = c ! m ! t ! p + (if pos = (m, t, p) then 1 else 0)"
    unfolding pos using Cons.prems(1) v assms(3-5) by (rule add_one_nth)
  finally show ?case by simp
qed

lemma sum_list_map_nth:
  fixes f :: "'a \<Rightarrow> 'b::comm_monoid_add"
  shows "sum_list (map f xs) = (\<Sum>i<length xs. f (xs ! i))"
proof -
  have "sum_list (map f xs) = (\<Sum>i = 0..<length (map f xs). map f xs ! i)"
    by (rule sum_list_sum_nth)
  also have "\<dots> = (\<Sum>i<length xs. f (xs ! i))"
    by (simp add: atLeast0LessThan)
  finally show ?thesis .
qed

lemma entry_sum_nth:
  assumes "cm_shape N C c" "m < N"
  shows "entry_sum (c ! m) = (\<Sum>t<C. \<Sum>p<C. sint (c ! m ! t ! p))"
proof -
  have l: "length (c ! m) = C" and r: "\<And>t. t < C \<Longrightarrow> length (c ! m ! t) = C"
    using assms by (simp_all add: cm_shape_def)
  have "entry_sum (c ! m) = (\<Sum>t<C. \<Sum>x\<leftarrow>c ! m ! t. sint x)"
    unfolding entry_sum_def sum_list_map_nth l ..
  also have "\<dots> = (\<Sum>t<C. \<Sum>p<C. sint (c ! m ! t ! p))"
    by (rule sum.cong) (simp_all add: sum_list_map_nth r)
  finally show ?thesis .
qed

lemma sum_delta_lessThan:
  fixes f :: "nat \<Rightarrow> nat"
  shows "a < C \<Longrightarrow> (\<Sum>k<C. if a = k then f k else 0) = f a"
  using sum.delta'[of "{..<C}" a f] by simp

lemma hits_sum:
  fixes C :: nat
  assumes "\<forall>pos\<in>set ps. fst (snd pos) < C \<and> snd (snd pos) < C"
  shows "(\<Sum>t<C. \<Sum>p<C. count_list ps (m, t, p)) = length (filter (\<lambda>pos. fst pos = m) ps)"
  using assms
proof (induction ps)
  case Nil
  then show ?case by simp
next
  case (Cons pos ps)
  obtain m' t' p' where pos: "pos = (m', t', p')" by (cases pos) auto
  have v: "t' < C" "p' < C" using Cons.prems pos by auto
  have one: "(\<Sum>t<C. \<Sum>p<C. (if pos = (m, t, p) then 1 else 0 :: nat)) = (if m' = m then 1 else 0)"
  proof (cases "m' = m")
    case False
    then show ?thesis by (simp add: pos)
  next
    case True
    have "(\<Sum>t<C. \<Sum>p<C. (if pos = (m, t, p) then 1 else 0 :: nat))
        = (\<Sum>t<C. if t' = t then (\<Sum>p<C. if p' = p then 1 else 0) else 0)"
      by (rule sum.cong) (auto simp: pos True)
    also have "\<dots> = (\<Sum>p<C. if p' = p then 1 else 0)"
      by (rule sum_delta_lessThan[OF v(1), where f = "\<lambda>_. \<Sum>p<C. if p' = p then 1 else 0"])
    also have "\<dots> = 1"
      by (rule sum_delta_lessThan[OF v(2), where f = "\<lambda>_. 1"])
    finally show ?thesis using True by simp
  qed
  have "(\<Sum>t<C. \<Sum>p<C. count_list (pos # ps) (m, t, p))
      = (\<Sum>t<C. \<Sum>p<C. (if pos = (m, t, p) then 1 else 0) + count_list ps (m, t, p))"
    by (intro sum.cong refl) simp
  also have "\<dots> = (\<Sum>t<C. \<Sum>p<C. (if pos = (m, t, p) then 1 else 0 :: nat))
                + (\<Sum>t<C. \<Sum>p<C. count_list ps (m, t, p))"
    by (simp add: sum.distrib)
  also have "\<dots> = (if m' = m then 1 else 0) + length (filter (\<lambda>pos. fst pos = m) ps)"
    using one Cons by simp
  finally show ?case by (simp add: pos)
qed

lemma count_le_hits:
  "count_list ps (m, t, p) \<le> length (filter (\<lambda>pos. fst pos = m) ps)"
  by (induction ps) auto

lemma update_step:
  assumes sh: "well_shaped self"
    and len: "length rows = length tv"
    and noov: "\<forall>m<n_models self. \<forall>t<n_classes self. \<forall>p<n_classes self.
                 sint (cm self ! m ! t ! p) + int (length tv) < 2 ^ 31"
    and upd: "update ok self \<lparr>p_device = pd, p_values = ClassIndices (n_models self) rows\<rparr>
                \<lparr>t_device = td, t_values = tv\<rparr> = Inr self'"
  shows "well_shaped self'"
    and "n_models self' = n_models self" and "n_classes self' = n_classes self"
    and "\<forall>m<n_models self. entry_sum (cm self' ! m) = entry_sum (cm self ! m) + int (length tv)"
    and "\<forall>m<n_models self. \<forall>t<n_classes self. \<forall>p<n_classes self.
           sint (cm self ! m ! t ! p) \<le> sint (cm self' ! m ! t ! p)"
proof -
  let ?N = "n_models self" and ?C = "n_classes self"
  let ?f = "sample_positions ?C [0..<?N] ?N ?N"
  have shape: "cm_shape ?N ?C (cm self)" using sh by (simp add: well_shaped_def)
  have b: "broadcast_dim ?N ?N = Some ?N" by (simp add: broadcast_dim_def)
  from upd obtain ps where
    seq: "sequence (concat (map2 ?f tv rows)) = Inr ps" and
    self': "self' = self\<lparr>cm := foldl add_one (cm self) ps\<rparr>"
    unfolding update_ClassIndices[OF len] b
    by (cases "sequence (concat (map2 ?f tv rows))") (auto split: if_splits)
  from sequence_concat_Inr[OF seq] obtain yss where
    ps: "ps = concat yss" and all2: "list_all2 (\<lambda>xs ys. sequence xs = Inr ys) (map2 ?f tv rows) yss"
    by blast
  have lyss: "length yss = length tv"
    using list_all2_lengthD[OF all2] len by simp
  have each: "map fst ys = [0..<?N] \<and> (\<forall>pos\<in>set ys. fst (snd pos) < ?C \<and> snd (snd pos) < ?C)"
    if "ys \<in> set yss" for ys
  proof -
    from that obtain i where i: "i < length yss" "ys = yss ! i" by (auto simp: in_set_conv_nth)
    then have "sequence (map2 ?f tv rows ! i) = Inr ys"
      using list_all2_nthD2[OF all2, of i] by simp
    then have "sequence (?f (tv ! i) (rows ! i)) = Inr ys"
      using i lyss len by simp
    then show ?thesis using sample_positions_Inr by blast
  qed
  have valid: "\<forall>pos\<in>set ps. fst pos < ?N \<and> fst (snd pos) < ?C \<and> snd (snd pos) < ?C"
  proof
    fix pos assume "pos \<in> set ps"
    then obtain ys where ys: "ys \<in> set yss" "pos \<in> set ys" unfolding ps by auto
    then have "fst pos \<in> set (map fst ys)" by simp
    then have "fst pos < ?N" using each[OF ys(1)] by simp
    then show "fst pos < ?N \<and> fst (snd pos) < ?C \<and> snd (snd pos) < ?C"
      using each[OF ys(1)] ys(2) by blast
  qed
  have hits: "length (filter (\<lambda>pos. fst pos = m) ps) = length tv" if "m < ?N" for m
    unfolding ps using model_hits_batch[of yss ?N m] each that lyss by simp
  have cm': "cm self' = foldl add_one (cm self) ps" by (simp add: self')
  have shape': "cm_shape ?N ?C (cm self')"
    unfolding cm' using shape by (rule foldl_add_one_shape)
  show "n_models self' = ?N" "n_classes self' = ?C" by (simp_all add: self')
  then show "well_shaped self'" using shape' by (simp add: well_shaped_def)
  have cell: "sint (cm self' ! m ! t ! p) = sint (cm self ! m ! t ! p) + int (count_list ps (m, t, p))"
    if "m < ?N" "t < ?C" "p < ?C" for m t p
  proof -
    have "count_list ps (m, t, p) \<le> length tv"
      using count_le_hits[of ps m t p] hits[OF that(1)] by simp
    then have "sint (cm self ! m ! t ! p) + int (count_list ps (m, t, p)) < 2 ^ 31"
      using noov that by (smt (verit) of_nat_mono)
    then show ?thesis
      unfolding cm' foldl_add_one_nth[OF shape valid that] by (rule sint_add_of_nat)
  qed
  show "\<forall>m<?N. \<forall>t<?C. \<forall>p<?C. sint (cm self ! m ! t ! p) \<le> sint (cm self' ! m ! t ! p)"
    using cell by simp
  show "\<forall>m<?N. entry_sum (cm self' ! m) = entry_sum (cm self ! m) + int (length tv)"
  proof (intro allI impI)
    fix m assume m: "m < ?N"
    have "entry_sum (cm self' ! m) = (\<Sum>t<?C. \<Sum>p<?C. sint (cm self' ! m ! t ! p))"
      using shape' m by (rule entry_sum_nth)
    also have "\<dots> = (\<Sum>t<?C. \<Sum>p<?C. sint (cm self ! m ! t ! p) + int (count_list ps (m, t, p)))"
      by (intro sum.cong refl) (simp add: cell m)
    also have "\<dots> = (\<Sum>t<?C. \<Sum>p<?C. sint (cm self ! m ! t ! p))
                     + int (\<Sum>t<?C. \<Sum>p<?C. count_list ps (m, t, p))"
      by (simp add: sum.distrib)
    also have "\<dots> = entry_sum (cm self ! m) + int (length tv)"
      using entry_sum_nth[OF shape m] hits_sum[of ps ?C m] valid hits[OF m] by simp
    finally show "entry_sum (cm self' ! m) = entry_sum (cm self ! m) + int (length tv)" .
  qed
qed

lemma sum64_int: "sum64 xs = word_of_int (\<Sum>x\<leftarrow>xs. sint x)"
  unfolding sum64_def by (induction xs) simp_all

lemma entry_sum_concat: "entry_sum m = (\<Sum>x\<leftarrow>concat m. sint x)"
  unfolding entry_sum_def by (induction m) simp_all

lemma counted_init: "counted (MultiConfusionMatrix_init N C d) 0"
  by (simp add: counted_def well_shaped_def cm_shape_def MultiConfusionMatrix_init_def
      entry_sum_def sum_list_replicate)

lemma update_counted:
  assumes c: "counted self seen"
    and ax: "models_axis (p_values predictions) = n_models self"
    and bl: "batch_len (p_values predictions) = length (t_values targets)"
    and small: "seen + length (t_values targets) < 2 ^ 31"
    and upd: "update ok self predictions targets = Inr self'"
  shows "counted self' (seen + length (t_values targets)) \<and> n_models self' = n_models self"
proof -
  obtain pd pv where p: "predictions = \<lparr>p_device = pd, p_values = pv\<rparr>"
    by (cases predictions) auto
  obtain td tv where t: "targets = \<lparr>t_device = td, t_values = tv\<rparr>"
    by (cases targets) auto
  obtain rows where
    u: "update ok self \<lparr>p_device = pd, p_values = ClassIndices (n_models self) rows\<rparr>
          \<lparr>t_device = td, t_values = tv\<rparr> = Inr self'" and l: "length rows = length tv"
  proof (cases pv)
    case (ClassIndices n rows)
    then show ?thesis using that[of rows] ax bl upd p t by simp
  next
    case (ClassScores n k scores)
    then show ?thesis
      using that[of "map (map (\<lambda>scores. int (argmax scores))) scores"] ax bl upd p t
      by (simp add: update_ClassScores split: if_splits)
  qed
  have sh: "well_shaped self" using c by (simp add: counted_def)
  have cell_le: "sint (cm self ! m ! i ! j) \<le> int seen"
    if "m < n_models self" "i < n_classes self" "j < n_classes self" for m i j
  proof -
    have shape: "cm_shape (n_models self) (n_classes self) (cm self)"
      using sh by (simp add: well_shaped_def)
    have nn: "\<And>a b. a < n_classes self \<Longrightarrow> b < n_classes self \<Longrightarrow> 0 \<le> sint (cm self ! m ! a ! b)"
      using c that(1) by (simp add: counted_def)
    have rn: "0 \<le> (\<Sum>p<n_classes self. sint (cm self ! m ! a ! p))" if "a < n_classes self" for a
      by (rule sum_nonneg) (simp add: nn that)
    have "sint (cm self ! m ! i ! j) \<le> (\<Sum>p<n_classes self. sint (cm self ! m ! i ! p))"
      by (rule member_le_sum) (simp_all add: that nn)
    also have "\<dots> \<le> (\<Sum>t<n_classes self. \<Sum>p<n_classes self. sint (cm self ! m ! t ! p))"
      by (rule member_le_sum[where f = "\<lambda>t. \<Sum>p<n_classes self. sint (cm self ! m ! t ! p)"])
         (simp_all add: that rn)
    also have "\<dots> = int seen"
      using entry_sum_nth[OF shape that(1)] c that(1) by (simp add: counted_def)
    finally show ?thesis .
  qed
  have noov: "\<forall>m<n_models self. \<forall>t<n_classes self. \<forall>p<n_classes self.
                 sint (cm self ! m ! t ! p) + int (length tv) < 2 ^ 31"
  proof (intro allI impI)
    fix m i j assume "m < n_models self" "i < n_classes self" "j < n_classes self"
    from cell_le[OF this] have "sint (cm self ! m ! i ! j) + int (length tv) \<le> int (seen + length tv)"
      by simp
    also have "\<dots> < 2 ^ 31"
    proof -
      have "seen + length tv < 2 ^ 31" using small t by simp
      then have "int (seen + length tv) < int (2 ^ 31)" by (simp only: of_nat_less_iff)
      then show ?thesis by simp
    qed
    finally show "sint (cm self ! m ! i ! j) + int (length tv) < 2 ^ 31" .
  qed
  note st = update_step[OF sh l noov u]
  have "\<forall>m<n_models self'. \<forall>t<n_classes self'. \<forall>p<n_classes self'. 0 \<le> sint (cm self' ! m ! t ! p)"
  proof (intro allI impI)
    fix m i j assume "m < n_models self'" "i < n_classes self'" "j < n_classes self'"
    then have a: "m < n_models self" "i < n_classes self" "j < n_classes self"
      using st(2,3) by simp_all
    have "0 \<le> sint (cm self ! m ! i ! j)" using c a by (simp add: counted_def)
    also have "\<dots> \<le> sint (cm self' ! m ! i ! j)" using st(5) a by simp
    finally show "0 \<le> sint (cm self' ! m ! i ! j)" .
  qed
  moreover have "\<forall>m<n_models self'. entry_sum (cm self' ! m) = int (seen + length (t_values targets))"
    using st(2,4) c t by (simp add: counted_def)
  ultimately show ?thesis using st(1,2) by (simp add: counted_def)
qed

lemma update_all_counted:
  assumes "counted self seen"
    and "\<forall>(predictions, targets)\<in>set batches.
           models_axis (p_values predictions) = n_models self \<and>
           batch_len (p_values predictions) = length (t_values targets)"
    and "seen + (\<Sum>(predictions, targets)\<leftarrow>batches. length (t_values targets)) < 2 ^ 31"
    and "update_all ok self batches = Inr self'"
  shows "counted self' (seen + (\<Sum>(predictions, targets)\<leftarrow>batches. length (t_values targets)))
         \<and> n_models self' = n_models self"
  using assms
proof (induction batches arbitrary: self seen)
  case Nil
  then show ?case by simp
next
  case (Cons b batches)
  obtain predictions targets where b: "b = (predictions, targets)" by (cases b) auto
  let ?rest = "\<Sum>(predictions, targets)\<leftarrow>batches. length (t_values targets)"
  from Cons.prems(4) obtain mid where
    u: "update ok self predictions targets = Inr mid" and
    r: "update_all ok mid batches = Inr self'"
    unfolding b by (cases "update ok self predictions targets") auto
  have small: "seen + length (t_values targets) < 2 ^ 31"
    using Cons.prems(3) b by simp
  have ax: "models_axis (p_values predictions) = n_models self"
       "batch_len (p_values predictions) = length (t_values targets)"
    using Cons.prems(2) b by auto
  from update_counted[OF Cons.prems(1) ax small u]
  have mid: "counted mid (seen + length (t_values targets))" "n_models mid = n_models self"
    by simp_all
  have "counted self' (seen + length (t_values targets) + ?rest) \<and> n_models self' = n_models mid"
  proof (rule Cons.IH[OF mid(1) _ _ r])
    show "\<forall>(predictions, targets)\<in>set batches.
           models_axis (p_values predictions) = n_models mid \<and>
           batch_len (p_values predictions) = length (t_values targets)"
      using Cons.prems(2) mid(2) by auto
    show "seen + length (t_values targets) + ?rest < 2 ^ 31"
      using Cons.prems(3) b by (simp add: add.assoc)
  qed
  then show ?case using mid(2) b by (simp add: add.assoc)
qed

lemma update_one_sample:
  "update ok \<lparr>n_models = 1, n_classes = 1, cm = [[[c]]], device = d\<rparr>
       \<lparr>p_device = d, p_values = ClassIndices 1 [[0]]\<rparr> \<lparr>t_device = d, t_values = [0]\<rparr> =
     Inr \<lparr>n_models = 1, n_classes = 1, cm = [[[c + 1]]], device = d\<rparr>"
  by (simp add: update_def update_indices_def
      index_put_accumulate_def broadcast_dim_def index_positions_def
      sample_positions_def wrap_index_def at_dim_def add_one_def)

lemma update_same_samples:
  "update ok \<lparr>n_models = 1, n_classes = 1, cm = [[[c]]], device = d\<rparr>
       \<lparr>p_device = d, p_values = ClassIndices 1 (replicate k [0])\<rparr>
       \<lparr>t_device = d, t_values = replicate k 0\<rparr> =
     Inr \<lparr>n_models = 1, n_classes = 1, cm = [[[c + of_nat k]]], device = d\<rparr>"
proof (induction k arbitrary: c)
  case 0
  show ?case
    by (simp add: update_def update_indices_def
      index_put_accumulate_def broadcast_dim_def index_positions_def)
next
  case (Suc k)
  have "update ok \<lparr>n_models = 1, n_classes = 1, cm = [[[c]]], device = d\<rparr>
       \<lparr>p_device = d, p_values = ClassIndices 1 ([[0]] @ replicate k [0])\<rparr>
       \<lparr>t_device = d, t_values = [0] @ replicate k 0\<rparr> =
     and_then
       (update ok \<lparr>n_models = 1, n_classes = 1, cm = [[[c]]], device = d\<rparr>
          \<lparr>p_device = d, p_values = ClassIndices 1 [[0]]\<rparr> \<lparr>t_device = d, t_values = [0]\<rparr>)
       (\<lambda>self'. update ok self' \<lparr>p_device = d, p_values = ClassIndices 1 (replicate k [0])\<rparr>
          \<lparr>t_device = d, t_values = replicate k 0\<rparr>)"
    by (rule update_split_indices) simp_all
  moreover have "replicate (Suc k) [0::int] = [[0]] @ replicate k [0]"
    "replicate (Suc k) (0::int) = [0] @ replicate k 0"
    by simp_all
  ultimately have "update ok \<lparr>n_models = 1, n_classes = 1, cm = [[[c]]], device = d\<rparr>
       \<lparr>p_device = d, p_values = ClassIndices 1 (replicate (Suc k) [0])\<rparr>
       \<lparr>t_device = d, t_values = replicate (Suc k) 0\<rparr> =
     Inr \<lparr>n_models = 1, n_classes = 1, cm = [[[c + 1 + of_nat k]]], device = d\<rparr>"
    unfolding update_one_sample and_then_simps Suc.IH by simp
  then show ?case by (simp add: add.assoc)
qed

text \<open>
  Claim C10, as the code has it. The counts are 32-bit integers. Take a state in which the
  count tensor has its shape, no count is negative and every model's matrix sums to the
  number \<open>seen\<close> of samples counted so far (the state after construction is one, with
  \<open>seen = 0\<close>), and batches whose predictions have one column for every model and as
  many rows as there are targets. As long as the number of samples stays below \<open>2^31\<close>,
  the calls of \<^verbatim>\<open>update\<close> that return add the size of the batches to every model's
  entry sum, so that all models hold the same total, the number of samples seen; and the
  total by which \<^verbatim>\<open>calculate_metrics\<close> normalises, the sum of the matrix of model 0, is
  that number.
\<close>

theorem update_counts_every_sample:
  assumes "counted self seen"
    and "\<forall>(predictions, targets)\<in>set batches.
           models_axis (p_values predictions) = n_models self \<and>
           batch_len (p_values predictions) = length (t_values targets)"
    and "seen + (\<Sum>(predictions, targets)\<leftarrow>batches. length (t_values targets)) < 2 ^ 31"
    and "update_all ok self batches = Inr self'"
  shows "(\<forall>m<n_models self.
            entry_sum (cm self' ! m) =
              entry_sum (cm self ! m)
                + int (\<Sum>(predictions, targets)\<leftarrow>batches. length (t_values targets))) \<and>
         counted self' (seen + (\<Sum>(predictions, targets)\<leftarrow>batches. length (t_values targets))) \<and>
         (\<forall>result. calculate_metrics self' = Inr result \<longrightarrow>
            total_samples result =
              of_nat (seen + (\<Sum>(predictions, targets)\<leftarrow>batches. length (t_values targets))))"
proof -
  let ?n = "\<Sum>(predictions, targets)\<leftarrow>batches. length (t_values targets)"
  from update_all_counted[OF assms]
  have c: "counted self' (seen + ?n)" and n: "n_models self' = n_models self" by simp_all
  have a: "\<forall>m<n_models self. entry_sum (cm self' ! m) = entry_sum (cm self ! m) + int ?n"
    using c n assms(1) by (simp add: counted_def)
  have t: "total_samples result = of_nat (seen + ?n)"
    if r: "calculate_metrics self' = Inr result" for result
  proof -
    from r obtain first others where f: "cm self' = first # others"
      by (cases "cm self'") (auto simp: calculate_metrics_def)
    then have "0 < n_models self'"
      using c by (auto simp: counted_def well_shaped_def cm_shape_def)
    then have "entry_sum first = int (seen + ?n)"
      using c f by (auto simp: counted_def)
    moreover have "total_samples result = sum64 (concat first)"
      using r f by (auto simp: calculate_metrics_def Let_def)
    ultimately show ?thesis
      by (simp add: sum64_int flip: entry_sum_concat)
  qed
  show ?thesis using a c t by blast
qed

theorem update_counts_every_sample_witness:
  "\<exists>self'.
     update_all (\<lambda>self_device index_device. False) (MultiConfusionMatrix_init 2 2 ''cpu'')
       [(\<lparr>p_device = ''cpu'', p_values = ClassIndices 2 [[0, 1]]\<rparr>,
         \<lparr>t_device = ''cpu'', t_values = [0]\<rparr>),
        (\<lparr>p_device = ''cpu'', p_values = ClassScores 2 2 [[[0, 1], [0, 1]], [[1, 0], [1, 0]]]\<rparr>,
         \<lparr>t_device = ''cpu'', t_values = [1, 0]\<rparr>)] = Inr self' \<and>
     counted self' 3 \<and>
     entry_sum (cm self' ! 0) = 3 \<and> entry_sum (cm self' ! 1) = 3"
proof -
  let ?batches = "[(\<lparr>p_device = ''cpu'', p_values = ClassIndices 2 [[0, 1]]\<rparr>,
         \<lparr>t_device = ''cpu'', t_values = [0]\<rparr>),
        (\<lparr>p_device = ''cpu'', p_values = ClassScores 2 2 [[[0, 1], [0, 1]], [[1, 0], [1, 0]]]\<rparr>,
         \<lparr>t_device = ''cpu'', t_values = [1, 0 :: int]\<rparr>)]"
  have u: "update_all (\<lambda>self_device index_device. False) (MultiConfusionMatrix_init 2 2 ''cpu'') ?batches =
      Inr \<lparr>n_models = 2, n_classes = 2, cm = [[[2, 0], [0, 1]], [[1, 1], [0, 1]]], device = ''cpu''\<rparr>"
    by (simp add: update_def update_indices_def MultiConfusionMatrix_init_def
      index_put_accumulate_def broadcast_dim_def index_positions_def
      sample_positions_def wrap_index_def at_dim_def add_one_def argmax_def eval_nat_numeral)
  have b: "\<forall>(predictions, targets)\<in>set ?batches.
           models_axis (p_values predictions) = n_models (MultiConfusionMatrix_init 2 2 ''cpu'') \<and>
           batch_len (p_values predictions) = length (t_values targets)"
    by (simp add: MultiConfusionMatrix_init_def)
  have s: "0 + (\<Sum>(predictions, targets)\<leftarrow>?batches. length (t_values targets)) < (2::nat) ^ 31"
    by simp
  from update_counts_every_sample[OF counted_init b s u]
  have "counted \<lparr>n_models = 2, n_classes = 2, cm = [[[2, 0], [0, 1]], [[1, 1], [0, 1]]],
      device = ''cpu''\<rparr> 3"
    by (simp add: numeral_3_eq_3)
  moreover have "entry_sum [[2, 0], [0, 1]] = 3" "entry_sum [[1, 1], [0, 1]] = 3"
    by (simp_all add: entry_sum_def)
  ultimately show ?thesis unfolding u by simp
qed

text \<open>
  Without the bound the counts wrap. After \<open>2^31 - 1\<close> samples, counted from the state
  after construction, the one count of a one-model, one-class accumulator is
  \<open>2^31 - 1\<close>; the next sample makes it \<open>- 2^31\<close>, and the entry sum of the model
  falls by \<open>2^32 - 1\<close> where a batch of one sample was added.
\<close>

theorem update_overflow_counterexample:
  "update (\<lambda>self_device index_device. False) (MultiConfusionMatrix_init 1 1 ''cpu'')
       \<lparr>p_device = ''cpu'', p_values = ClassIndices 1 (replicate 2147483647 [0])\<rparr>
       \<lparr>t_device = ''cpu'', t_values = replicate 2147483647 0\<rparr> =
     Inr \<lparr>n_models = 1, n_classes = 1, cm = [[[2147483647]]], device = ''cpu''\<rparr> \<and>
   update (\<lambda>self_device index_device. False) \<lparr>n_models = 1, n_classes = 1, cm = [[[2147483647]]], device = ''cpu''\<rparr>
       \<lparr>p_device = ''cpu'', p_values = ClassIndices 1 [[0]]\<rparr>
       \<lparr>t_device = ''cpu'', t_values = [0]\<rparr> =
     Inr \<lparr>n_models = 1, n_classes = 1, cm = [[[2147483648]]], device = ''cpu''\<rparr> \<and>
   entry_sum [[2147483647]] = 2147483647 \<and>
   entry_sum [[2147483648]] = - 2147483648 \<and>
   entry_sum [[2147483648]] \<noteq> entry_sum [[2147483647]] + 1"
proof -
  have "update (\<lambda>self_device index_device. False) \<lparr>n_models = 1, n_classes = 1, cm = [[[0]]], device = ''cpu''\<rparr>
       \<lparr>p_device = ''cpu'', p_values = ClassIndices 1 (replicate 2147483647 [0])\<rparr>
       \<lparr>t_device = ''cpu'', t_values = replicate 2147483647 0\<rparr> =
     Inr \<lparr>n_models = 1, n_classes = 1, cm = [[[0 + of_nat 2147483647]]], device = ''cpu''\<rparr>"
    by (rule update_same_samples)
  then have a: "update (\<lambda>self_device index_device. False) (MultiConfusionMatrix_init 1 1 ''cpu'')
       \<lparr>p_device = ''cpu'', p_values = ClassIndices 1 (replicate 2147483647 [0])\<rparr>
       \<lparr>t_device = ''cpu'', t_values = replicate 2147483647 0\<rparr> =
     Inr \<lparr>n_models = 1, n_classes = 1, cm = [[[2147483647]]], device = ''cpu''\<rparr>"
    by (simp add: MultiConfusionMatrix_init_def)
  have b: "update (\<lambda>self_device index_device. False) \<lparr>n_models = 1, n_classes = 1, cm = [[[2147483647]]], device = ''cpu''\<rparr>
       \<lparr>p_device = ''cpu'', p_values = ClassIndices 1 [[0]]\<rparr>
       \<lparr>t_device = ''cpu'', t_values = [0]\<rparr> =
     Inr \<lparr>n_models = 1, n_classes = 1, cm = [[[2147483648]]], device = ''cpu''\<rparr>"
    using update_one_sample[of "\<lambda>self_device index_device. False" 2147483647 "''cpu''"] by simp
  have c: "entry_sum [[2147483647]] = 2147483647" "entry_sum [[2147483648]] = - 2147483648"
    by (simp_all add: entry_sum_def)
  show ?thesis using a b c by simp
qed

end
